theory Spec2Isabelle
  imports Complex_Main "HOL-Library.Signed_Division" "HOL-Library.Multiset"
begin

section \<open>Time\<close>

text \<open>
  \<^verbatim>\<open>time.Duration\<close> is an \<^verbatim>\<open>int64\<close> count of nanoseconds; a \<^verbatim>\<open>time.Time\<close> is
  modelled as the integer number of nanoseconds since a fixed epoch.  Every call of
  \<^verbatim>\<open>time.Now()\<close> in the source becomes an explicit argument \<open>now\<close>.
  The \<^verbatim>\<open>float64\<close> token count, rates and random draws are modelled by \<^typ>\<open>real\<close>,
  without rounding; the \<^verbatim>\<open>float64\<close> computation of the retry delay is left to a
  parameter (see the retry manager).
\<close>

type_synonym Duration = int
type_synonym Time = int

definition maxDuration :: Duration where
  "maxDuration = 2 ^ 63 - 1"

definition minDuration :: Duration where
  "minDuration = - (2 ^ 63)"

definition Millisecond :: Duration where
  "Millisecond = 1000000"

definition Second :: Duration where
  "Second = 1000000000"

definition Minute :: Duration where
  "Minute = 60 * Second"

text \<open>\<^verbatim>\<open>t.Sub(u)\<close>: the difference, saturated at the largest and smallest duration.\<close>

definition time_Sub :: "Time \<Rightarrow> Time \<Rightarrow> Duration" where
  "time_Sub t u =
     (if t - u > maxDuration then maxDuration
      else if t - u < minDuration then minDuration
      else t - u)"

text \<open>\<^verbatim>\<open>time.Since(u)\<close> is \<^verbatim>\<open>time.Now().Sub(u)\<close>.\<close>

definition time_Since :: "Time \<Rightarrow> Time \<Rightarrow> Duration" where
  "time_Since now u = time_Sub now u"

text \<open>\<^verbatim>\<open>d.Seconds()\<close>: the duration as a floating-point number of seconds.\<close>

definition Seconds :: "Duration \<Rightarrow> real" where
  "Seconds d = real_of_int d / 1000000000"

text \<open>The zero value of \<^verbatim>\<open>time.Time\<close> (1 January of year 1, UTC), counted from the Unix epoch.\<close>

definition zeroTime :: Time where
  "zeroTime = - 62135596800 * Second"

section \<open>Configuration\<close>

record RetryConfig =
  MaxAttempts :: int
  BaseDelay :: Duration
  MaxDelay :: Duration
  BackoffMultiplier :: real
  JitterPercent :: int
  RetriableErrors :: "string list"

record CircuitBreakerConfig =
  FailureThreshold :: int
  RecoveryTimeout :: Duration
  TestRequestRate :: real
  ConsecutiveSuccesses :: int

record RateLimitConfig =
  RequestsPerMinute :: int
  BurstSize :: int
  AdaptiveEnabled :: bool
  QuotaPercentage :: real

record MonitoringConfig =
  MetricsEnabled :: bool
  HealthChecksEnabled :: bool
  AlertThreshold :: real
  MetricsRetention :: Duration

text \<open>The settings of \<^verbatim>\<open>DefaultReliabilityConfig\<close>.\<close>

definition DefaultRetryConfig :: RetryConfig where
  "DefaultRetryConfig =
     \<lparr>MaxAttempts = 3, BaseDelay = 100 * Millisecond, MaxDelay = 30 * Second,
      BackoffMultiplier = 2, JitterPercent = 25,
      RetriableErrors = [''rate_limit'', ''timeout'', ''server_error'', ''network'']\<rparr>"

definition DefaultCircuitBreakerConfig :: CircuitBreakerConfig where
  "DefaultCircuitBreakerConfig =
     \<lparr>FailureThreshold = 5, RecoveryTimeout = 60 * Second,
      TestRequestRate = 1 / 10, ConsecutiveSuccesses = 3\<rparr>"

definition DefaultRateLimitConfig :: RateLimitConfig where
  "DefaultRateLimitConfig =
     \<lparr>RequestsPerMinute = 60, BurstSize = 10, AdaptiveEnabled = True,
      QuotaPercentage = 80\<rparr>"

definition DefaultMonitoringConfig :: MonitoringConfig where
  "DefaultMonitoringConfig =
     \<lparr>MetricsEnabled = True, HealthChecksEnabled = True, AlertThreshold = 5 / 100,
      MetricsRetention = 24 * (60 * Minute)\<rparr>"

section \<open>Circuit breaker\<close>

datatype CircuitState = CircuitClosed | CircuitOpen | CircuitHalfOpen

fun CircuitState_String :: "CircuitState \<Rightarrow> string" where
  "CircuitState_String CircuitClosed = ''CLOSED''"
| "CircuitState_String CircuitOpen = ''OPEN''"
| "CircuitState_String CircuitHalfOpen = ''HALF_OPEN''"

text \<open>
  \<^verbatim>\<open>CircuitState\<close> is an \<^verbatim>\<open>int\<close> with three named values, the only ones the program
  ever stores; the \<^verbatim>\<open>default\<close> branches of \<^verbatim>\<open>String\<close> and \<^verbatim>\<open>Allow\<close> have no
  counterpart here.  The counters are Go \<^verbatim>\<open>int\<close>s; they are modelled as unbounded
  integers (a counter would have to be incremented \<open>2 ^ 63\<close> times to wrap).
\<close>

record CircuitBreaker =
  cb_config :: CircuitBreakerConfig
  state :: CircuitState
  failureCount :: int
  lastFailureTime :: Time
  successCount :: int

definition NewCircuitBreaker :: "CircuitBreakerConfig \<Rightarrow> CircuitBreaker" where
  "NewCircuitBreaker config =
     \<lparr>cb_config = config, state = CircuitClosed, failureCount = 0,
      lastFailureTime = zeroTime, successCount = 0\<rparr>"

definition shouldAttemptReset :: "Time \<Rightarrow> CircuitBreaker \<Rightarrow> bool" where
  "shouldAttemptReset now cb =
     (time_Since now (lastFailureTime cb) \<ge> RecoveryTimeout (cb_config cb))"

text \<open>\<open>r\<close> is the value drawn by \<^verbatim>\<open>rand.Float64()\<close>.\<close>

definition shouldAllowTestRequest :: "real \<Rightarrow> CircuitBreaker \<Rightarrow> bool" where
  "shouldAllowTestRequest r cb = (r < TestRequestRate (cb_config cb))"

text \<open>
  \<^verbatim>\<open>CircuitBreaker.Allow\<close> has a pointer receiver; the model returns the answer together
  with the breaker as the method leaves it.
\<close>

definition CircuitBreaker_Allow :: "Time \<Rightarrow> real \<Rightarrow> CircuitBreaker \<Rightarrow> bool \<times> CircuitBreaker" where
  "CircuitBreaker_Allow now r cb =
     (case state cb of
        CircuitClosed \<Rightarrow> (True, cb)
      | CircuitOpen \<Rightarrow> (shouldAttemptReset now cb, cb)
      | CircuitHalfOpen \<Rightarrow> (shouldAllowTestRequest r cb, cb))"

definition CircuitBreaker_RecordFailure :: "Time \<Rightarrow> CircuitBreaker \<Rightarrow> CircuitBreaker" where
  "CircuitBreaker_RecordFailure now cb =
     (let cb1 = cb\<lparr>failureCount := failureCount cb + 1,
                   lastFailureTime := now,
                   successCount := 0\<rparr>
      in if state cb1 = CircuitClosed \<and> failureCount cb1 \<ge> FailureThreshold (cb_config cb1)
         then cb1\<lparr>state := CircuitOpen\<rparr>
         else if state cb1 = CircuitHalfOpen
         then cb1\<lparr>state := CircuitOpen\<rparr>
         else cb1)"

definition CircuitBreaker_RecordSuccess :: "CircuitBreaker \<Rightarrow> CircuitBreaker" where
  "CircuitBreaker_RecordSuccess cb =
     (let cb1 = cb\<lparr>failureCount := 0, successCount := successCount cb + 1\<rparr>
      in if state cb1 = CircuitOpen
         then cb1\<lparr>state := CircuitHalfOpen\<rparr>
         else if state cb1 = CircuitHalfOpen
                 \<and> successCount cb1 \<ge> ConsecutiveSuccesses (cb_config cb1)
         then cb1\<lparr>state := CircuitClosed, successCount := 0\<rparr>
         else cb1)"

definition CircuitBreaker_Reset :: "CircuitBreaker \<Rightarrow> CircuitBreaker" where
  "CircuitBreaker_Reset cb = cb\<lparr>state := CircuitClosed, failureCount := 0, successCount := 0\<rparr>"

definition GetState :: "CircuitBreaker \<Rightarrow> CircuitState" where
  "GetState cb = state cb"

text \<open>The methods of the breaker as a datatype of calls, and a run of calls one after another.\<close>

datatype cb_call =
    CallAllow Time real
  | CallRecordFailure Time
  | CallRecordSuccess
  | CallReset

fun cb_step :: "cb_call \<Rightarrow> CircuitBreaker \<Rightarrow> CircuitBreaker" where
  "cb_step (CallAllow now r) cb = snd (CircuitBreaker_Allow now r cb)"
| "cb_step (CallRecordFailure now) cb = CircuitBreaker_RecordFailure now cb"
| "cb_step CallRecordSuccess cb = CircuitBreaker_RecordSuccess cb"
| "cb_step CallReset cb = CircuitBreaker_Reset cb"

text \<open>The breakers that a program can hold: a new one, after any run of calls.\<close>

inductive cb_reachable :: "CircuitBreaker \<Rightarrow> bool" where
  cb_new: "cb_reachable (NewCircuitBreaker config)"
| cb_next: "cb_reachable cb \<Longrightarrow> cb_reachable (cb_step c cb)"

text \<open>\<open>n\<close> calls of \<^verbatim>\<open>RecordSuccess\<close> in a row.\<close>

definition successes :: "nat \<Rightarrow> CircuitBreaker \<Rightarrow> CircuitBreaker" where
  "successes n cb = (CircuitBreaker_RecordSuccess ^^ n) cb"

text \<open>
  The number of the call, in a run of \<^verbatim>\<open>RecordSuccess\<close> calls on a HalfOpen breaker,
  at which the success counter reaches \<open>ConsecutiveSuccesses\<close>: each call adds one to the
  counter, and at least one call is needed.
\<close>

definition closing_call :: "CircuitBreaker \<Rightarrow> nat" where
  "closing_call cb = nat (max 1 (ConsecutiveSuccesses (cb_config cb) - successCount cb))"

text \<open>Calls of \<^verbatim>\<open>RecordFailure\<close> in a row, one at each of the given times.\<close>

definition failures :: "Time list \<Rightarrow> CircuitBreaker \<Rightarrow> CircuitBreaker" where
  "failures ts cb = fold CircuitBreaker_RecordFailure ts cb"

section \<open>Rate limiter\<close>

text \<open>The token count is a \<^verbatim>\<open>float64\<close> in the source, a real number here.\<close>

record RateLimiter =
  rl_config :: RateLimitConfig
  tokens :: real
  lastRefill :: Time
  requestTimes :: "Time list"

text \<open>\<open>now\<close> is the reading of \<^verbatim>\<open>time.Now()\<close> taken by the constructor.\<close>

definition NewRateLimiter :: "RateLimitConfig \<Rightarrow> Time \<Rightarrow> RateLimiter" where
  "NewRateLimiter config now =
     \<lparr>rl_config = config, tokens = real_of_int (BurstSize config), lastRefill = now,
      requestTimes = []\<rparr>"

text \<open>
  The cleaning loop of \<^verbatim>\<open>Allow\<close>: the slice from the first request time after the
  cutoff on, if there is one (the loop assigns nothing otherwise).
\<close>

fun firstAfter :: "Time \<Rightarrow> Time list \<Rightarrow> Time list option" where
  "firstAfter cutoff [] = None"
| "firstAfter cutoff (reqTime # rest) =
     (if reqTime > cutoff then Some (reqTime # rest) else firstAfter cutoff rest)"

text \<open>The token count after the refill step of \<^verbatim>\<open>Allow\<close>.\<close>

definition refilled :: "Time \<Rightarrow> RateLimiter \<Rightarrow> real" where
  "refilled now rl =
     (let elapsed = time_Sub now (lastRefill rl);
          tokensToAdd = Seconds elapsed * real_of_int (RequestsPerMinute (rl_config rl)) / 60
      in min (tokens rl + tokensToAdd) (real_of_int (BurstSize (rl_config rl))))"

definition RateLimiter_Allow :: "Time \<Rightarrow> RateLimiter \<Rightarrow> bool \<times> RateLimiter" where
  "RateLimiter_Allow now rl =
     (let rl1 = rl\<lparr>tokens := refilled now rl, lastRefill := now\<rparr>
      in if tokens rl1 \<ge> 1
         then (let rl2 = rl1\<lparr>tokens := tokens rl1 - 1,
                             requestTimes := requestTimes rl1 @ [now]\<rparr>;
                   cutoff = now - Minute
               in (True, case firstAfter cutoff (requestTimes rl2) of
                           Some recent \<Rightarrow> rl2\<lparr>requestTimes := recent\<rparr>
                         | None \<Rightarrow> rl2))
         else (False, rl1))"



section \<open>Monitor\<close>

text \<open>
  The request counters and the running total of the latencies are \<^verbatim>\<open>int64\<close> in the
  source, unbounded integers here.
\<close>

record Monitor =
  m_config :: MonitoringConfig
  totalRequests :: int
  successfulRequests :: int
  failedRequests :: int
  totalRetries :: int
  successfulRetries :: int
  failedRetries :: int
  circuitBreakerTrips :: int
  rateLimitedRequests :: int
  responseTimes :: "Duration list"
  lastAPISuccess :: Time
  lastAPIFailure :: Time

definition NewMonitor :: "MonitoringConfig \<Rightarrow> Monitor" where
  "NewMonitor config =
     \<lparr>m_config = config, totalRequests = 0, successfulRequests = 0, failedRequests = 0,
      totalRetries = 0, successfulRetries = 0, failedRetries = 0, circuitBreakerTrips = 0,
      rateLimitedRequests = 0, responseTimes = [], lastAPISuccess = zeroTime,
      lastAPIFailure = zeroTime\<rparr>"

definition Monitor_RecordSuccess :: "Time \<Rightarrow> Duration \<Rightarrow> Monitor \<Rightarrow> Monitor" where
  "Monitor_RecordSuccess now duration m =
     (let m1 = m\<lparr>totalRequests := totalRequests m + 1,
                 successfulRequests := successfulRequests m + 1,
                 responseTimes := responseTimes m @ [duration],
                 lastAPISuccess := now\<rparr>
      in if length (responseTimes m1) > 1000
         then m1\<lparr>responseTimes :=
                  drop (length (responseTimes m1) - 1000) (responseTimes m1)\<rparr>
         else m1)"

definition Monitor_RecordFailure :: "Time \<Rightarrow> Duration \<Rightarrow> Monitor \<Rightarrow> Monitor" where
  "Monitor_RecordFailure now duration m =
     m\<lparr>totalRequests := totalRequests m + 1,
       failedRequests := failedRequests m + 1,
       responseTimes := responseTimes m @ [duration],
       lastAPIFailure := now\<rparr>"

definition RecordRateLimited :: "Monitor \<Rightarrow> Monitor" where
  "RecordRateLimited m =
     m\<lparr>totalRequests := totalRequests m + 1,
       rateLimitedRequests := rateLimitedRequests m + 1\<rparr>"

definition Monitor_Reset :: "Monitor \<Rightarrow> Monitor" where
  "Monitor_Reset m =
     m\<lparr>totalRequests := 0, successfulRequests := 0, failedRequests := 0,
       totalRetries := 0, successfulRetries := 0, failedRetries := 0,
       circuitBreakerTrips := 0, rateLimitedRequests := 0, responseTimes := []\<rparr>"

text \<open>The two calls that record a latency sample, and a run of them.\<close>

datatype record_call = Success Time Duration | Failure Time Duration

fun record_step :: "record_call \<Rightarrow> Monitor \<Rightarrow> Monitor" where
  "record_step (Success now duration) m = Monitor_RecordSuccess now duration m"
| "record_step (Failure now duration) m = Monitor_RecordFailure now duration m"

definition records :: "record_call list \<Rightarrow> Monitor \<Rightarrow> Monitor" where
  "records calls m = fold record_step calls m"

subsection \<open>Metrics\<close>

record Metrics =
  TotalRequests :: int
  SuccessfulRequests :: int
  FailedRequests :: int
  ErrorRate :: real
  TotalRetries :: int
  SuccessfulRetries :: int
  FailedRetries :: int
  RetrySuccessRate :: real
  CircuitBreakerTrips :: int
  CircuitBreakerState :: string
  LastCircuitBreakerTrip :: Time
  RateLimitedRequests :: int
  RequestsPerMinute_metric :: real
  QuotaUsage :: real
  AvgResponseTime :: Duration
  P95ResponseTime :: Duration
  FastestResponse :: Duration
  SlowestResponse :: Duration

text \<open>
  The sort inside \<^verbatim>\<open>GetMetrics\<close>: the inner loop runs \<open>j\<close> up to \<open>bound\<close> and swaps
  neighbours that are out of order; the outer loop runs \<open>i\<close> up to \<open>n - 1\<close>, where \<open>n\<close>
  is the length of the slice (the swaps do not change it).
\<close>

function bubble_inner :: "nat \<Rightarrow> nat \<Rightarrow> Duration list \<Rightarrow> Duration list" where
  "bubble_inner j bound a =
     (if j < bound
      then bubble_inner (j + 1) bound
             (if a ! j > a ! (j + 1) then a[j := a ! (j + 1), j + 1 := a ! j] else a)
      else a)"
  by pat_completeness auto
termination
  by (relation "measure (\<lambda>(j, bound, a). bound - j)") auto

declare bubble_inner.simps [simp del]

function bubble_outer :: "nat \<Rightarrow> nat \<Rightarrow> Duration list \<Rightarrow> Duration list" where
  "bubble_outer i n a =
     (if i < n - 1
      then bubble_outer (i + 1) n (bubble_inner 0 (n - i - 1) a)
      else a)"
  by pat_completeness auto
termination
  by (relation "measure (\<lambda>(i, n, a). n - i)") auto

declare bubble_outer.simps [simp del]

definition bubble_sort :: "Duration list \<Rightarrow> Duration list" where
  "bubble_sort a = bubble_outer 0 (length a) a"

text \<open>The loop over the samples: running total, fastest and slowest.\<close>

definition scan_times :: "Duration list \<Rightarrow> Duration \<times> Duration \<times> Duration" where
  "scan_times rts =
     fold (\<lambda>rt (tot, fastest, slowest).
             (tot + rt,
              if rt < fastest then rt else fastest,
              if rt > slowest then rt else slowest))
       rts (0, rts ! 0, rts ! 0)"

text \<open>
  \<^verbatim>\<open>int(float64(n) * 0.95)\<close>, for a length \<open>n\<close>, in exact arithmetic.  (The
  \<^verbatim>\<open>float64\<close> nearest to 0.95 lies below it by less than half a unit in the last
  place, so the rounded product is \<open>0.95 * n\<close> itself when that is a whole number, and
  has the same integer part otherwise, for every length below \<open>10 ^ 14\<close>.)
\<close>

definition p95Index :: "nat \<Rightarrow> nat" where
  "p95Index n = nat \<lfloor>real n * 0.95\<rfloor>"

definition GetMetrics :: "Monitor \<Rightarrow> CircuitBreaker \<Rightarrow> RateLimiter \<Rightarrow> Metrics" where
  "GetMetrics m cb rl =
     (let metrics =
            \<lparr>TotalRequests = totalRequests m,
             SuccessfulRequests = successfulRequests m,
             FailedRequests = failedRequests m,
             ErrorRate = (if totalRequests m > 0
                          then real_of_int (failedRequests m) / real_of_int (totalRequests m)
                          else 0),
             TotalRetries = totalRetries m,
             SuccessfulRetries = successfulRetries m,
             FailedRetries = failedRetries m,
             RetrySuccessRate = (if totalRetries m > 0
                          then real_of_int (successfulRetries m) / real_of_int (totalRetries m)
                          else 0),
             CircuitBreakerTrips = circuitBreakerTrips m,
             CircuitBreakerState = CircuitState_String (GetState cb),
             LastCircuitBreakerTrip = zeroTime,
             RateLimitedRequests = rateLimitedRequests m,
             RequestsPerMinute_metric = real (length (requestTimes rl)),
             QuotaUsage = 0,
             AvgResponseTime = 0, P95ResponseTime = 0,
             FastestResponse = 0, SlowestResponse = 0\<rparr>
      in if length (responseTimes m) > 0
         then (case scan_times (responseTimes m) of (tot, fastest, slowest) \<Rightarrow>
                 let metrics1 =
                       metrics\<lparr>AvgResponseTime := tot sdiv int (length (responseTimes m)),
                               FastestResponse := fastest,
                               SlowestResponse := slowest\<rparr>
                 in if length (responseTimes m) \<ge> 20
                    then (let sorted_copy = bubble_sort (responseTimes m)
                          in metrics1\<lparr>P95ResponseTime :=
                                sorted_copy ! p95Index (length sorted_copy)\<rparr>)
                    else metrics1)
         else metrics)"

text \<open>
  The nearest-rank 95th percentile, as the specification names it: of \<open>n\<close> samples in
  ascending order, the one of rank \<open>\<lceil>0.95 * n\<rceil>\<close>, ranks counted from 1.
\<close>

definition nearest_rank_p95 :: "Duration list \<Rightarrow> Duration" where
  "nearest_rank_p95 xs = sort xs ! (nat \<lceil>real (length xs) * 0.95\<rceil> - 1)"

text \<open>
  What \<open>i\<close> rounds of the outer loop have achieved: the last \<open>i\<close> places are in
  ascending order and hold nothing smaller than any earlier place.
\<close>

definition tail_sorted :: "nat \<Rightarrow> Duration list \<Rightarrow> bool" where
  "tail_sorted i a =
     (sorted (drop (length a - i) a)
      \<and> (\<forall>x \<in> set (take (length a - i) a). \<forall>y \<in> set (drop (length a - i) a). x \<le> y))"

section \<open>Errors and strings\<close>

text \<open>
  Go's \<^verbatim>\<open>error\<close> values: the two errors a context reports, an error handed back by the
  remote client (with its message), an error made by \<^verbatim>\<open>fmt.Errorf\<close> from a fixed
  message, and one made by \<^verbatim>\<open>fmt.Errorf("prefix: %w", err)\<close> around another error.
\<close>

datatype error =
    Canceled
  | DeadlineExceeded
  | ClientError string
  | Errorf string
  | Wrapped string error

fun Error :: "error \<Rightarrow> string" where
  "Error Canceled = ''context canceled''"
| "Error DeadlineExceeded = ''context deadline exceeded''"
| "Error (ClientError msg) = msg"
| "Error (Errorf msg) = msg"
| "Error (Wrapped prefix err) = prefix @ Error err"

text \<open>
  \<^verbatim>\<open>indexOfSubstring\<close>: the loop over \<open>i\<close>, started at \<open>i\<close>; \<open>s[i:i+len(substr)]\<close> is
  \<open>take (length substr) (drop i s)\<close>.
\<close>

function indexOfSubstring_from :: "string \<Rightarrow> string \<Rightarrow> nat \<Rightarrow> int" where
  "indexOfSubstring_from s substr i =
     (if int i \<le> int (length s) - int (length substr)
      then (if take (length substr) (drop i s) = substr
            then int i
            else indexOfSubstring_from s substr (i + 1))
      else - 1)"
  by pat_completeness auto
termination
  by (relation "measure (\<lambda>(s, substr, i). length s + 1 - i)") auto

declare indexOfSubstring_from.simps [simp del]

definition indexOfSubstring :: "string \<Rightarrow> string \<Rightarrow> int" where
  "indexOfSubstring s substr = indexOfSubstring_from s substr 0"

definition contains :: "string \<Rightarrow> string \<Rightarrow> bool" where
  "contains s substr =
     (length s \<ge> length substr \<and>
      (s = substr \<or>
       (length s > length substr \<and>
        (take (length substr) s = substr \<or>
         drop (length s - length substr) s = substr \<or>
         indexOfSubstring s substr \<noteq> - 1))))"

section \<open>Retry manager\<close>

text \<open>
  The manager's own random source is not part of the record: the value it draws at an
  attempt is an argument of \<^verbatim>\<open>calculateDelay\<close>.
\<close>

record RetryManager =
  rm_config :: RetryConfig

definition NewRetryManager :: "RetryConfig \<Rightarrow> RetryManager" where
  "NewRetryManager config = \<lparr>rm_config = config\<rparr>"

fun isRetriable_from :: "string \<Rightarrow> string list \<Rightarrow> bool" where
  "isRetriable_from errStr [] = False"
| "isRetriable_from errStr (retriableErr # rest) =
     (if contains errStr retriableErr then True else isRetriable_from errStr rest)"

definition isRetriable :: "RetryManager \<Rightarrow> error \<Rightarrow> bool" where
  "isRetriable rm err = isRetriable_from (Error err) (RetriableErrors (rm_config rm))"

text \<open>
  \<^verbatim>\<open>calculateDelay\<close> computes in \<^verbatim>\<open>float64\<close>.  The arithmetic of \<^verbatim>\<open>float64\<close> (its
  rounding, infinities and NaN), \<^verbatim>\<open>math.Pow\<close> and the conversions are not defined here:
  they are arguments of the model.  \<open>'f\<close> is the type of \<^verbatim>\<open>float64\<close> values;
  \<open>float64_of\<close> is the conversion \<^verbatim>\<open>float64(i)\<close> of an integer, \<open>float64_val\<close> gives the
  \<^verbatim>\<open>float64\<close> of a literal, of a stored field or of a random draw from the number it
  stands for, and \<open>to_Duration\<close> is the conversion \<^verbatim>\<open>time.Duration(x)\<close>.
\<close>

record 'f float64_arith =
  float64_of :: "int \<Rightarrow> 'f"
  float64_val :: "real \<Rightarrow> 'f"
  fadd :: "'f \<Rightarrow> 'f \<Rightarrow> 'f"
  fsub :: "'f \<Rightarrow> 'f \<Rightarrow> 'f"
  fmul :: "'f \<Rightarrow> 'f \<Rightarrow> 'f"
  fdiv :: "'f \<Rightarrow> 'f \<Rightarrow> 'f"
  fpow :: "'f \<Rightarrow> 'f \<Rightarrow> 'f"
  fgt :: "'f \<Rightarrow> 'f \<Rightarrow> bool"
  to_Duration :: "'f \<Rightarrow> Duration"

text \<open>\<open>r\<close> is the value of \<^verbatim>\<open>rm.random.Float64()\<close>, read only when jitter is configured.\<close>

definition calculateDelay :: "'f float64_arith \<Rightarrow> RetryManager \<Rightarrow> int \<Rightarrow> real \<Rightarrow> Duration" where
  "calculateDelay fp rm attempt r =
     (let exponentialDelay =
            fmul fp (float64_of fp (BaseDelay (rm_config rm)))
              (fpow fp (float64_val fp (BackoffMultiplier (rm_config rm)))
                 (float64_of fp (attempt - 1)));
          exponentialDelay =
            (if fgt fp exponentialDelay (float64_of fp (MaxDelay (rm_config rm)))
             then float64_of fp (MaxDelay (rm_config rm))
             else exponentialDelay);
          jitter =
            (if JitterPercent (rm_config rm) > 0
             then (let jitterRange =
                         fdiv fp (float64_of fp (JitterPercent (rm_config rm)))
                           (float64_val fp 100)
                   in fadd fp (float64_val fp 1)
                        (fmul fp
                           (fsub fp (fmul fp (float64_val fp r) (float64_val fp 2))
                              (float64_val fp 1))
                           jitterRange))
             else float64_val fp 1)
      in to_Duration fp (fmul fp exponentialDelay jitter))"

text \<open>
  The context, as \<^verbatim>\<open>Execute\<close> sees it in its \<^verbatim>\<open>select\<close>: \<open>ctx attempt delay\<close> is
  \<open>Some err\<close> when, in the wait of length \<open>delay\<close> after the given attempt, the
  \<^verbatim>\<open>Done\<close> channel is taken (\<open>err\<close> is \<^verbatim>\<open>ctx.Err()\<close>), and \<open>None\<close> when the timer is.
\<close>

type_synonym Context = "int \<Rightarrow> Duration \<Rightarrow> error option"

text \<open>
  An operation works on a state \<open>'s\<close> and returns its pair of result and error together
  with the new state.  \<open>rnd attempt\<close> is the random value available at an attempt.
  \<^verbatim>\<open>Execute\<close> is the loop started at attempt 1 with no last error.
\<close>

type_synonym 's operation = "'s \<Rightarrow> (string \<times> error option) \<times> 's"

function Execute_from ::
  "'f float64_arith \<Rightarrow> RetryManager \<Rightarrow> Context \<Rightarrow> (int \<Rightarrow> real) \<Rightarrow> 's operation \<Rightarrow> int
     \<Rightarrow> error option \<Rightarrow> 's \<Rightarrow> (string \<times> error option) \<times> 's" where
  "Execute_from fp rm ctx rnd operation attempt lastErr s =
     (if attempt \<le> MaxAttempts (rm_config rm)
      then (case operation s of
              ((result, None), s') \<Rightarrow> ((result, None), s')
            | ((result, Some err), s') \<Rightarrow>
                if attempt = MaxAttempts (rm_config rm) \<or> \<not> isRetriable rm err
                then (('''', Some err), s')
                else (case ctx attempt (calculateDelay fp rm attempt (rnd attempt)) of
                        Some cancelled \<Rightarrow> (('''', Some cancelled), s')
                      | None \<Rightarrow>
                          Execute_from fp rm ctx rnd operation (attempt + 1) (Some err) s'))
      else (('''', lastErr), s))"
  by pat_completeness auto
termination
  by (relation "measure (\<lambda>(fp, rm, ctx, rnd, operation, attempt, lastErr, s).
        nat (MaxAttempts (rm_config rm) + 1 - attempt))") auto

declare Execute_from.simps [simp del]

definition Execute ::
  "'f float64_arith \<Rightarrow> RetryManager \<Rightarrow> Context \<Rightarrow> (int \<Rightarrow> real) \<Rightarrow> 's operation \<Rightarrow> 's
     \<Rightarrow> (string \<times> error option) \<times> 's" where
  "Execute fp rm ctx rnd operation s = Execute_from fp rm ctx rnd operation 1 None s"

text \<open>
  Counting invocations: the operation run on a state paired with a counter that each
  invocation increments; and the state after \<open>n\<close> invocations in a row.
\<close>

definition counted :: "'s operation \<Rightarrow> (nat \<times> 's) operation" where
  "counted operation = (\<lambda>(n, s). case operation s of (r, s') \<Rightarrow> (r, (n + 1, s')))"

definition invoked :: "nat \<Rightarrow> 's operation \<Rightarrow> 's \<Rightarrow> 's" where
  "invoked n operation s = ((\<lambda>s. snd (operation s)) ^^ n) s"

text \<open>The error of an invocation (\<open>None\<close> for \<^verbatim>\<open>nil\<close>).\<close>

definition error_of :: "'s operation \<Rightarrow> 's \<Rightarrow> error option" where
  "error_of operation s = snd (fst (operation s))"

section \<open>Fault injector\<close>

text \<open>
  \<^verbatim>\<open>activeFailures\<close> is a Go map from fault type to expiry time.  It is modelled as a
  list of pairs with distinct keys; the order of the list stands for the order in which
  \<^verbatim>\<open>range\<close> visits the map, which Go does not fix.
\<close>

record FaultInjector =
  activeFailures :: "(string \<times> Time) list"

definition NewFaultInjector :: FaultInjector where
  "NewFaultInjector = \<lparr>activeFailures = []\<rparr>"

fun map_assign :: "string \<Rightarrow> Time \<Rightarrow> (string \<times> Time) list \<Rightarrow> (string \<times> Time) list" where
  "map_assign k v [] = [(k, v)]"
| "map_assign k v ((k', v') # rest) =
     (if k' = k then (k, v) # rest else (k', v') # map_assign k v rest)"

definition InjectFault :: "Time \<Rightarrow> string \<Rightarrow> Duration \<Rightarrow> FaultInjector \<Rightarrow> FaultInjector" where
  "InjectFault now faultType duration fi =
     fi\<lparr>activeFailures := map_assign faultType (now + duration) (activeFailures fi)\<rparr>"

definition ClearFaults :: "FaultInjector \<Rightarrow> FaultInjector" where
  "ClearFaults fi = fi\<lparr>activeFailures := []\<rparr>"

text \<open>The \<^verbatim>\<open>switch\<close> of \<^verbatim>\<open>ShouldFail\<close>: the error simulated for a fault type, if any.\<close>

definition simulated :: "string \<Rightarrow> error option" where
  "simulated faultType =
     (if faultType = ''timeout'' then Some (Errorf ''timeout: simulated timeout error'')
      else if faultType = ''ratelimit''
        then Some (Errorf ''rate_limit: simulated rate limit error'')
      else if faultType = ''server_error''
        then Some (Errorf ''server_error: simulated server error'')
      else if faultType = ''network'' then Some (Errorf ''network: simulated network error'')
      else if faultType = ''quota'' then Some (Errorf ''quota: simulated quota exhaustion'')
      else None)"

fun firstFault :: "Time \<Rightarrow> (string \<times> Time) list \<Rightarrow> error option" where
  "firstFault now [] = None"
| "firstFault now ((faultType, expiry) # rest) =
     (if now < expiry
      then (case simulated faultType of
              Some err \<Rightarrow> Some err
            | None \<Rightarrow> firstFault now rest)
      else firstFault now rest)"

definition ShouldFail :: "Time \<Rightarrow> FaultInjector \<Rightarrow> error option \<times> FaultInjector" where
  "ShouldFail now fi =
     (case firstFault now (activeFailures fi) of
        Some err \<Rightarrow> (Some err, fi)
      | None \<Rightarrow>
          (None, fi\<lparr>activeFailures :=
                       filter (\<lambda>(faultType, expiry). \<not> now > expiry) (activeFailures fi)\<rparr>))"

section \<open>Resilient agent\<close>

record ReliabilityConfig =
  Retry :: RetryConfig
  CircuitBreaker :: CircuitBreakerConfig
  RateLimit :: RateLimitConfig
  Monitoring :: MonitoringConfig

definition DefaultReliabilityConfig :: ReliabilityConfig where
  "DefaultReliabilityConfig =
     \<lparr>Retry = DefaultRetryConfig, CircuitBreaker = DefaultCircuitBreakerConfig,
      RateLimit = DefaultRateLimitConfig, Monitoring = DefaultMonitoringConfig\<rparr>"

text \<open>
  The agent with its surroundings.  \<open>client\<close> is the state of the remote client, of any
  type \<open>'c\<close>.  \<open>clock\<close> lists the readings of \<^verbatim>\<open>time.Now()\<close> in the order in which they
  are taken and \<open>ticks\<close> counts the readings taken so far; \<open>floats\<close> and \<open>draws\<close> do the
  same for the package-level \<^verbatim>\<open>rand.Float64()\<close>.
\<close>

record 'c ResilientAgent =
  client :: 'c
  ra_config :: ReliabilityConfig
  retryManager :: RetryManager
  circuitBreaker :: CircuitBreaker
  rateLimiter :: RateLimiter
  monitor :: Monitor
  faultInjector :: FaultInjector
  clock :: "nat \<Rightarrow> Time"
  ticks :: nat
  floats :: "nat \<Rightarrow> real"
  draws :: nat

definition Now :: "'c ResilientAgent \<Rightarrow> Time \<times> 'c ResilientAgent" where
  "Now ra = (clock ra (ticks ra), ra\<lparr>ticks := ticks ra + 1\<rparr>)"

definition Float64 :: "'c ResilientAgent \<Rightarrow> real \<times> 'c ResilientAgent" where
  "Float64 ra = (floats ra (draws ra), ra\<lparr>draws := draws ra + 1\<rparr>)"

text \<open>
  \<^verbatim>\<open>NewResilientAgent\<close>: \<open>c\<close> is the client that \<^verbatim>\<open>openai.NewClient(apiKey)\<close> makes,
  \<open>config\<close> is \<open>None\<close> for a \<^verbatim>\<open>nil\<close> configuration.  The constructors of the retry
  manager (for its random seed) and of the rate limiter read the clock, in this order.
\<close>

definition NewResilientAgent ::
  "string \<Rightarrow> 'c \<Rightarrow> ReliabilityConfig option \<Rightarrow> (nat \<Rightarrow> Time) \<Rightarrow> (nat \<Rightarrow> real)
     \<Rightarrow> error + 'c ResilientAgent" where
  "NewResilientAgent apiKey c config readings numbers =
     (if apiKey = '''' then Inl (Errorf ''API key is required'')
      else (let config = (case config of None \<Rightarrow> DefaultReliabilityConfig
                                       | Some given \<Rightarrow> given)
            in Inr \<lparr>client = c, ra_config = config,
                    retryManager = NewRetryManager (Retry config),
                    circuitBreaker = NewCircuitBreaker (CircuitBreaker config),
                    rateLimiter = NewRateLimiter (RateLimit config) (readings 1),
                    monitor = NewMonitor (Monitoring config),
                    faultInjector = NewFaultInjector,
                    clock = readings, ticks = 2, floats = numbers, draws = 0\<rparr>))"

definition classifyError :: "error \<Rightarrow> error" where
  "classifyError err =
     (let errStr = Error err
      in if contains errStr ''rate limit'' then Wrapped ''rate_limit: '' err
         else if contains errStr ''timeout'' then Wrapped ''timeout: '' err
         else if contains errStr ''server error'' \<or> contains errStr ''internal error''
           then Wrapped ''server_error: '' err
         else if contains errStr ''network'' \<or> contains errStr ''connection''
           then Wrapped ''network: '' err
         else err)"

text \<open>
  The remote call \<^verbatim>\<open>client.CreateChatCompletion\<close>: from the client's state and the
  message to the contents of the returned choices and an error, and the client's new state.
\<close>

type_synonym 'c api = "'c \<Rightarrow> string \<Rightarrow> (string list \<times> error option) \<times> 'c"

definition performRequest :: "'c api \<Rightarrow> string \<Rightarrow> 'c ResilientAgent operation" where
  "performRequest api message ra =
     (case Now ra of (now, ra1) \<Rightarrow>
      case ShouldFail now (faultInjector ra1) of (failure, fi) \<Rightarrow>
        let ra2 = ra1\<lparr>faultInjector := fi\<rparr>
        in case failure of
             Some err \<Rightarrow> (('''', Some err), ra2)
           | None \<Rightarrow>
               (case api (client ra2) message of ((choices, err), c) \<Rightarrow>
                  let ra3 = ra2\<lparr>client := c\<rparr>
                  in case err of
                       Some e \<Rightarrow> (('''', Some (classifyError e)), ra3)
                     | None \<Rightarrow>
                         (case choices of
                            [] \<Rightarrow> (('''', Some (Errorf ''no response choices received'')), ra3)
                          | content # others \<Rightarrow> ((content, None), ra3))))"

text \<open>
  The admission check of the breaker inside \<^verbatim>\<open>Chat\<close>: the clock is read only in the Open
  state and a random number is drawn only in the HalfOpen state, as in \<^verbatim>\<open>Allow\<close>.
\<close>

definition breaker_admits :: "'c ResilientAgent \<Rightarrow> bool \<times> 'c ResilientAgent" where
  "breaker_admits ra =
     (case (if state (circuitBreaker ra) = CircuitOpen then Now ra else (0, ra))
        of (now, ra1) \<Rightarrow>
      case (if state (circuitBreaker ra1) = CircuitHalfOpen then Float64 ra1 else (0, ra1))
        of (r, ra2) \<Rightarrow>
      case CircuitBreaker_Allow now r (circuitBreaker ra2) of (allowed, cb) \<Rightarrow>
        (allowed, ra2\<lparr>circuitBreaker := cb\<rparr>))"

text \<open>
  \<open>fp\<close> is the \<^verbatim>\<open>float64\<close> arithmetic used by the retry manager, \<open>ctx\<close> the caller's
  context and \<open>rnd\<close> the retry manager's random source.
\<close>

definition Chat ::
  "'f float64_arith \<Rightarrow> 'c api \<Rightarrow> Context \<Rightarrow> (int \<Rightarrow> real) \<Rightarrow> string \<Rightarrow> 'c ResilientAgent
     \<Rightarrow> (string \<times> error option) \<times> 'c ResilientAgent" where
  "Chat fp api ctx rnd message ra =
     (case Now ra of (startTime, ra1) \<Rightarrow>
      case Now ra1 of (now, ra2) \<Rightarrow>
      case RateLimiter_Allow now (rateLimiter ra2) of (admitted, rl) \<Rightarrow>
        let ra3 = ra2\<lparr>rateLimiter := rl\<rparr>
        in if \<not> admitted
           then (('''', Some (Errorf ''rate limit exceeded'')),
                 ra3\<lparr>monitor := RecordRateLimited (monitor ra3)\<rparr>)
           else (case breaker_admits ra3 of (allowed, ra4) \<Rightarrow>
             if \<not> allowed
             then (case Now ra4 of (since, ra5) \<Rightarrow>
                   case Now ra5 of (recordedAt, ra6) \<Rightarrow>
                     (('''', Some (Errorf ''circuit breaker is open'')),
                      ra6\<lparr>monitor :=
                            Monitor_RecordFailure recordedAt (time_Sub since startTime) (monitor ra6)\<rparr>))
             else (case Execute fp (retryManager ra4) ctx rnd (performRequest api message) ra4
                     of ((response, err), ra5) \<Rightarrow>
                   case Now ra5 of (since, ra6) \<Rightarrow>
                     let duration = time_Sub since startTime
                     in case err of
                          Some e \<Rightarrow>
                            (case Now ra6 of (failedAt, ra7) \<Rightarrow>
                               let ra8 = ra7\<lparr>circuitBreaker :=
                                     CircuitBreaker_RecordFailure failedAt (circuitBreaker ra7)\<rparr>
                               in case Now ra8 of (recordedAt, ra9) \<Rightarrow>
                                    (('''', Some e),
                                     ra9\<lparr>monitor :=
                                           Monitor_RecordFailure recordedAt duration (monitor ra9)\<rparr>))
                        | None \<Rightarrow>
                            let ra7 = ra6\<lparr>circuitBreaker :=
                                  CircuitBreaker_RecordSuccess (circuitBreaker ra6)\<rparr>
                            in case Now ra7 of (recordedAt, ra8) \<Rightarrow>
                                 ((response, None),
                                  ra8\<lparr>monitor :=
                                        Monitor_RecordSuccess recordedAt duration (monitor ra8)\<rparr>))))"

section \<open>Circuit breaker: properties\<close>

lemma failures_snoc:
  "failures (ts @ [t]) cb = CircuitBreaker_RecordFailure t (failures ts cb)"
  by (simp add: failures_def)

lemma failures_config: "cb_config (failures ts cb) = cb_config cb"
  by (induction ts rule: rev_induct)
     (simp_all add: failures_def CircuitBreaker_RecordFailure_def Let_def)

lemma failures_from_closed:
  assumes "state cb = CircuitClosed"
  shows "failureCount (failures ts cb) = failureCount cb + int (length ts)
       \<and> state (failures ts cb) =
           (if ts \<noteq> [] \<and> FailureThreshold (cb_config cb) \<le> failureCount cb + int (length ts)
            then CircuitOpen else CircuitClosed)"
proof (induction ts rule: rev_induct)
  case Nil
  show ?case using assms by (simp add: failures_def)
next
  case (snoc t ts)
  have cnt: "failureCount (failures ts cb) = failureCount cb + int (length ts)"
    using snoc by simp
  have cfg: "cb_config (failures ts cb) = cb_config cb"
    by (rule failures_config)
  show ?case
  proof (cases "state (failures ts cb) = CircuitOpen")
    case True
    then have "ts \<noteq> [] \<and> FailureThreshold (cb_config cb) \<le> failureCount cb + int (length ts)"
      using snoc by (simp split: if_splits)
    then show ?thesis
      using True cnt cfg
      by (simp add: failures_snoc CircuitBreaker_RecordFailure_def Let_def)
  next
    case False
    then have closed: "state (failures ts cb) = CircuitClosed"
      using snoc by (simp split: if_splits)
    show ?thesis
      using closed cnt cfg
      by (simp add: failures_snoc CircuitBreaker_RecordFailure_def Let_def)
  qed
qed

text \<open>
  C3.  From the Closed state with failure counter 0 and \<open>FailureThreshold = N\<close>
  (\<open>N \<ge> 1\<close>, as the \<open>N - 1\<close> calls of the statement presuppose), \<open>N\<close> consecutive calls
  of \<^verbatim>\<open>RecordFailure\<close> leave the breaker Open, and \<open>N - 1\<close> such calls, or fewer, leave
  it Closed.
\<close>

theorem circuit_threshold:
  assumes "state cb = CircuitClosed"
    and "failureCount cb = 0"
    and "FailureThreshold (cb_config cb) = int N"
    and "1 \<le> N"
    and "length ts = N"
    and "length ts' < N"
  shows "state (failures ts cb) = CircuitOpen \<and> state (failures ts' cb) = CircuitClosed"
proof -
  have open_N: "state (failures ts cb) = CircuitOpen"
    using failures_from_closed [OF assms(1), of ts] assms(2-5) by auto
  have "int (length ts') < int N"
    using assms(6) by simp
  then have closed_N1: "state (failures ts' cb) = CircuitClosed"
    using failures_from_closed [OF assms(1), of ts'] assms(2,3) by simp
  show ?thesis using open_N closed_N1 by simp
qed

theorem circuit_threshold_witness:
  "state (NewCircuitBreaker DefaultCircuitBreakerConfig) = CircuitClosed
 \<and> failureCount (NewCircuitBreaker DefaultCircuitBreakerConfig) = 0
 \<and> FailureThreshold (cb_config (NewCircuitBreaker DefaultCircuitBreakerConfig)) = int 5
 \<and> state (failures [10, 20, 30, 40, 50] (NewCircuitBreaker DefaultCircuitBreakerConfig))
     = CircuitOpen
 \<and> state (failures [10, 20, 30, 40] (NewCircuitBreaker DefaultCircuitBreakerConfig))
     = CircuitClosed"
  using circuit_threshold [of "NewCircuitBreaker DefaultCircuitBreakerConfig" 5
      "[10, 20, 30, 40, 50]" "[10, 20, 30, 40]"]
  by (simp add: NewCircuitBreaker_def DefaultCircuitBreakerConfig_def)

lemma successes_Suc:
  "successes (Suc n) cb = CircuitBreaker_RecordSuccess (successes n cb)"
  by (simp add: successes_def)

lemma successes_add: "successes (m + n) cb = successes m (successes n cb)"
  by (simp add: successes_def funpow_add)

lemma cb_reachable_successCount:
  "cb_reachable cb \<Longrightarrow>
     0 \<le> successCount cb \<and> (state cb = CircuitHalfOpen \<longrightarrow> 1 \<le> successCount cb)"
proof (induction rule: cb_reachable.induct)
  case (cb_new config)
  show ?case by (simp add: NewCircuitBreaker_def)
next
  case (cb_next cb c)
  then show ?case
    by (cases c; cases "state cb")
       (simp_all add: CircuitBreaker_Allow_def CircuitBreaker_RecordFailure_def
          CircuitBreaker_RecordSuccess_def CircuitBreaker_Reset_def Let_def)
qed

lemma cb_reachable_successes: "cb_reachable cb \<Longrightarrow> cb_reachable (successes n cb)"
proof (induction n)
  case 0
  then show ?case by (simp add: successes_def)
next
  case (Suc n)
  then have "cb_reachable (cb_step CallRecordSuccess (successes n cb))"
    by (intro cb_next) simp
  then show ?case by (simp add: successes_Suc)
qed

lemma cb_reachable_failures: "cb_reachable cb \<Longrightarrow> cb_reachable (failures ts cb)"
proof (induction ts rule: rev_induct)
  case Nil
  then show ?case by (simp add: failures_def)
next
  case (snoc t ts)
  then have "cb_reachable (cb_step (CallRecordFailure t) (failures ts cb))"
    by (intro cb_next) simp
  then show ?case by (simp add: failures_snoc)
qed

lemma successes_below_threshold:
  assumes "state cb = CircuitHalfOpen"
    and "successCount cb + int i < ConsecutiveSuccesses (cb_config cb)"
  shows "state (successes i cb) = CircuitHalfOpen
       \<and> successCount (successes i cb) = successCount cb + int i
       \<and> cb_config (successes i cb) = cb_config cb"
  using assms(2)
proof (induction i)
  case 0
  show ?case using assms(1) by (simp add: successes_def)
next
  case (Suc i)
  then have "state (successes i cb) = CircuitHalfOpen
       \<and> successCount (successes i cb) = successCount cb + int i
       \<and> cb_config (successes i cb) = cb_config cb"
    by simp
  then show ?case
    using Suc.prems by (simp add: successes_Suc CircuitBreaker_RecordSuccess_def Let_def)
qed

lemma successes_closed_count:
  "state cb = CircuitClosed \<Longrightarrow>
     state (successes n cb) = CircuitClosed
     \<and> successCount (successes n cb) = successCount cb + int n"
  by (induction n) (simp_all add: successes_def CircuitBreaker_RecordSuccess_def Let_def)

text \<open>Before the closing call the breaker is HalfOpen and the counter has grown by one a call.\<close>

lemma successes_before_closing:
  assumes "state cb = CircuitHalfOpen"
    and "i < closing_call cb"
  shows "state (successes i cb) = CircuitHalfOpen
       \<and> successCount (successes i cb) = successCount cb + int i
       \<and> cb_config (successes i cb) = cb_config cb"
proof (cases "i = 0")
  case True
  then show ?thesis using assms(1) by (simp add: successes_def)
next
  case False
  then have "successCount cb + int i < ConsecutiveSuccesses (cb_config cb)"
    using assms(2) unfolding closing_call_def by linarith
  then show ?thesis by (rule successes_below_threshold [OF assms(1)])
qed

text \<open>The closing call takes the breaker to Closed and sets the counter to 0.\<close>

lemma successes_at_closing:
  assumes "state cb = CircuitHalfOpen"
  shows "state (successes (closing_call cb) cb) = CircuitClosed
       \<and> successCount (successes (closing_call cb) cb) = 0"
proof -
  define m where "m = closing_call cb - 1"
  have j: "closing_call cb = Suc m"
    unfolding m_def closing_call_def by simp
  have "m < closing_call cb"
    using j by simp
  then have at_m: "state (successes m cb) = CircuitHalfOpen
            \<and> successCount (successes m cb) = successCount cb + int m
            \<and> cb_config (successes m cb) = cb_config cb"
    by (rule successes_before_closing [OF assms])
  have "int (closing_call cb) \<ge> ConsecutiveSuccesses (cb_config cb) - successCount cb"
    unfolding closing_call_def by linarith
  then have reach: "ConsecutiveSuccesses (cb_config cb) \<le> successCount cb + int m + 1"
    using j by simp
  show ?thesis
    unfolding j using at_m reach
    by (simp add: successes_Suc CircuitBreaker_RecordSuccess_def Let_def)
qed

lemma successes_after_closing:
  assumes "state cb = CircuitHalfOpen"
    and "closing_call cb \<le> i"
  shows "state (successes i cb) = CircuitClosed
       \<and> successCount (successes i cb) = int (i - closing_call cb)"
proof -
  have "successes i cb = successes (i - closing_call cb) (successes (closing_call cb) cb)"
    using assms(2) successes_add [of "i - closing_call cb" "closing_call cb" cb] by simp
  then show ?thesis
    using successes_at_closing [OF assms(1)]
      successes_closed_count [of "successes (closing_call cb) cb" "i - closing_call cb"]
    by simp
qed

text \<open>
  C4 as stated fails.  Five failures and then one success take a new breaker with the
  default settings (\<open>ConsecutiveSuccesses = 3\<close>) through Open into HalfOpen; that success
  is already counted.  From there the breaker is Closed after two calls of
  \<^verbatim>\<open>RecordSuccess\<close>, not three, and after three calls the success counter is 1, not 0.
\<close>

theorem half_open_recovery_counterexample:
  "cb_reachable (successes 1 (failures [10, 20, 30, 40, 50]
      (NewCircuitBreaker DefaultCircuitBreakerConfig)))
 \<and> state (successes 1 (failures [10, 20, 30, 40, 50]
      (NewCircuitBreaker DefaultCircuitBreakerConfig))) = CircuitHalfOpen
 \<and> ConsecutiveSuccesses (cb_config (successes 1 (failures [10, 20, 30, 40, 50]
      (NewCircuitBreaker DefaultCircuitBreakerConfig)))) = 3
 \<and> state (successes 2 (successes 1 (failures [10, 20, 30, 40, 50]
      (NewCircuitBreaker DefaultCircuitBreakerConfig)))) = CircuitClosed
 \<and> successCount (successes 3 (successes 1 (failures [10, 20, 30, 40, 50]
      (NewCircuitBreaker DefaultCircuitBreakerConfig)))) = 1"
proof -
  let ?H = "successes 1 (failures [10, 20, 30, 40, 50]
      (NewCircuitBreaker DefaultCircuitBreakerConfig))"
  have r: "cb_reachable ?H"
    by (intro cb_reachable_successes cb_reachable_failures cb_new)
  have v: "?H = \<lparr>cb_config = DefaultCircuitBreakerConfig, state = CircuitHalfOpen,
      failureCount = 0, lastFailureTime = 50, successCount = 1\<rparr>"
    by (simp add: successes_def failures_def NewCircuitBreaker_def
        CircuitBreaker_RecordFailure_def CircuitBreaker_RecordSuccess_def
        DefaultCircuitBreakerConfig_def Let_def)
  have h: "state ?H = CircuitHalfOpen"
    unfolding v by simp
  have k: "ConsecutiveSuccesses (cb_config ?H) = 3"
    unfolding v by (simp add: DefaultCircuitBreakerConfig_def)
  have two: "state (successes 2 ?H) = CircuitClosed"
    unfolding v
    by (simp add: successes_def numeral_2_eq_2 CircuitBreaker_RecordSuccess_def
        DefaultCircuitBreakerConfig_def Let_def)
  have three: "successCount (successes 3 ?H) = 1"
    unfolding v
    by (simp add: successes_def numeral_3_eq_3 CircuitBreaker_RecordSuccess_def
        DefaultCircuitBreakerConfig_def Let_def)
  show ?thesis
    using r h k two three by blast
qed

text \<open>
  C4 amended.  For a breaker that a run of calls has brought into the HalfOpen state:
  one call of \<^verbatim>\<open>RecordFailure\<close> makes it Open.  Its success counter is at least 1 (the
  success that took it out of Open is counted).  In a run of \<^verbatim>\<open>RecordSuccess\<close> calls
  each call adds one to the counter; the breaker stays HalfOpen while the counter is
  below \<open>ConsecutiveSuccesses\<close>, and the first call at which the counter reaches
  \<open>ConsecutiveSuccesses\<close> (call number \<open>max 1 (ConsecutiveSuccesses - successCount)\<close>) makes
  it Closed and sets the counter to 0; from then on it stays Closed and the counter
  counts the later calls.  With \<open>ConsecutiveSuccesses \<ge> 2\<close> the closing call comes
  before the call number \<open>ConsecutiveSuccesses\<close>.
\<close>

theorem half_open_recovery:
  assumes "cb_reachable cb"
    and "state cb = CircuitHalfOpen"
  shows "state (CircuitBreaker_RecordFailure now cb) = CircuitOpen
       \<and> 1 \<le> successCount cb
       \<and> (\<forall>i. i < closing_call cb \<longrightarrow>
             state (successes i cb) = CircuitHalfOpen
             \<and> successCount (successes i cb) = successCount cb + int i)
       \<and> (\<forall>i. closing_call cb \<le> i \<longrightarrow>
             state (successes i cb) = CircuitClosed
             \<and> successCount (successes i cb) = int (i - closing_call cb))
       \<and> (2 \<le> ConsecutiveSuccesses (cb_config cb) \<longrightarrow>
             int (closing_call cb) < ConsecutiveSuccesses (cb_config cb))"
proof -
  have fail: "state (CircuitBreaker_RecordFailure now cb) = CircuitOpen"
    using assms(2) by (simp add: CircuitBreaker_RecordFailure_def Let_def)
  have counted: "1 \<le> successCount cb"
    using cb_reachable_successCount [OF assms(1)] assms(2) by simp
  have before: "\<forall>i. i < closing_call cb \<longrightarrow>
             state (successes i cb) = CircuitHalfOpen
             \<and> successCount (successes i cb) = successCount cb + int i"
    using successes_before_closing [OF assms(2)] by simp
  have after: "\<forall>i. closing_call cb \<le> i \<longrightarrow>
             state (successes i cb) = CircuitClosed
             \<and> successCount (successes i cb) = int (i - closing_call cb)"
    using successes_after_closing [OF assms(2)] by simp
  have early: "2 \<le> ConsecutiveSuccesses (cb_config cb) \<longrightarrow>
             int (closing_call cb) < ConsecutiveSuccesses (cb_config cb)"
    using counted unfolding closing_call_def by simp
  show ?thesis
    using fail counted before after early by blast
qed

theorem half_open_recovery_witness:
  "cb_reachable (successes 1 (failures [10, 20, 30, 40, 50]
      (NewCircuitBreaker DefaultCircuitBreakerConfig)))
 \<and> state (successes 1 (failures [10, 20, 30, 40, 50]
      (NewCircuitBreaker DefaultCircuitBreakerConfig))) = CircuitHalfOpen
 \<and> closing_call (successes 1 (failures [10, 20, 30, 40, 50]
      (NewCircuitBreaker DefaultCircuitBreakerConfig))) = 2
 \<and> state (CircuitBreaker_RecordFailure 60 (successes 1 (failures [10, 20, 30, 40, 50]
      (NewCircuitBreaker DefaultCircuitBreakerConfig)))) = CircuitOpen
 \<and> state (successes 1 (successes 1 (failures [10, 20, 30, 40, 50]
      (NewCircuitBreaker DefaultCircuitBreakerConfig)))) = CircuitHalfOpen
 \<and> state (successes 2 (successes 1 (failures [10, 20, 30, 40, 50]
      (NewCircuitBreaker DefaultCircuitBreakerConfig)))) = CircuitClosed
 \<and> successCount (successes 2 (successes 1 (failures [10, 20, 30, 40, 50]
      (NewCircuitBreaker DefaultCircuitBreakerConfig)))) = 0"
proof -
  let ?H = "successes 1 (failures [10, 20, 30, 40, 50]
      (NewCircuitBreaker DefaultCircuitBreakerConfig))"
  have r: "cb_reachable ?H"
    by (intro cb_reachable_successes cb_reachable_failures cb_new)
  have v: "?H = \<lparr>cb_config = DefaultCircuitBreakerConfig, state = CircuitHalfOpen,
      failureCount = 0, lastFailureTime = 50, successCount = 1\<rparr>"
    by (simp add: successes_def failures_def NewCircuitBreaker_def
        CircuitBreaker_RecordFailure_def CircuitBreaker_RecordSuccess_def
        DefaultCircuitBreakerConfig_def Let_def)
  have h: "state ?H = CircuitHalfOpen"
    unfolding v by simp
  have c: "closing_call ?H = 2"
    unfolding v by (simp add: closing_call_def DefaultCircuitBreakerConfig_def)
  note all = half_open_recovery [OF r h, of 60]
  have f: "state (CircuitBreaker_RecordFailure 60 ?H) = CircuitOpen"
    using all by blast
  have "(1::nat) < closing_call ?H"
    unfolding c by simp
  then have one: "state (successes 1 ?H) = CircuitHalfOpen"
    using all by blast
  have "closing_call ?H \<le> 2"
    unfolding c by simp
  then have "state (successes 2 ?H) = CircuitClosed
      \<and> successCount (successes 2 ?H) = int (2 - closing_call ?H)"
    using all by blast
  then have two: "state (successes 2 ?H) = CircuitClosed"
    and zero: "successCount (successes 2 ?H) = 0"
    unfolding c by simp_all
  show ?thesis
    using r h c f one two zero by blast
qed

text \<open>
  C10.  \<^verbatim>\<open>CircuitBreaker.Allow\<close> leaves the breaker as it found it.  In the Open state,
  once \<open>RecoveryTimeout\<close> has passed since the last failure, it answers true and the state
  is still Open.  A call that takes the breaker from another state into HalfOpen is a
  \<^verbatim>\<open>RecordSuccess\<close> made in the Open state, and every such call does so.
\<close>

theorem allow_is_read_only:
  "snd (CircuitBreaker_Allow now r cb) = cb
 \<and> (state cb = CircuitOpen
      \<and> RecoveryTimeout (cb_config cb) \<le> time_Since now (lastFailureTime cb)
    \<longrightarrow> fst (CircuitBreaker_Allow now r cb)
      \<and> state (snd (CircuitBreaker_Allow now r cb)) = CircuitOpen)
 \<and> (state cb \<noteq> CircuitHalfOpen \<and> state (cb_step c cb) = CircuitHalfOpen
    \<longrightarrow> c = CallRecordSuccess \<and> state cb = CircuitOpen)
 \<and> (state cb = CircuitOpen
    \<longrightarrow> state (cb_step CallRecordSuccess cb) = CircuitHalfOpen)"
proof -
  have frame: "snd (CircuitBreaker_Allow now r cb) = cb"
    by (simp add: CircuitBreaker_Allow_def split: CircuitState.splits)
  have probe: "state cb = CircuitOpen
      \<and> RecoveryTimeout (cb_config cb) \<le> time_Since now (lastFailureTime cb)
    \<longrightarrow> fst (CircuitBreaker_Allow now r cb)
      \<and> state (snd (CircuitBreaker_Allow now r cb)) = CircuitOpen"
    by (simp add: CircuitBreaker_Allow_def shouldAttemptReset_def)
  have only: "state cb \<noteq> CircuitHalfOpen \<and> state (cb_step c cb) = CircuitHalfOpen
    \<longrightarrow> c = CallRecordSuccess \<and> state cb = CircuitOpen"
    by (cases c; cases "state cb")
       (simp_all add: CircuitBreaker_Allow_def CircuitBreaker_RecordFailure_def
          CircuitBreaker_RecordSuccess_def CircuitBreaker_Reset_def Let_def)
  have does: "state cb = CircuitOpen
    \<longrightarrow> state (cb_step CallRecordSuccess cb) = CircuitHalfOpen"
    by (simp add: CircuitBreaker_RecordSuccess_def Let_def)
  show ?thesis using frame probe only does by blast
qed

theorem allow_is_read_only_witness:
  "state (failures [10] (NewCircuitBreaker DefaultCircuitBreakerConfig
      \<lparr>failureCount := 4\<rparr>)) = CircuitOpen
 \<and> RecoveryTimeout DefaultCircuitBreakerConfig \<le> time_Since (10 + 60 * Second) 10
 \<and> CircuitBreaker_Allow (10 + 60 * Second) 0
      (failures [10] (NewCircuitBreaker DefaultCircuitBreakerConfig \<lparr>failureCount := 4\<rparr>))
    = (True, failures [10] (NewCircuitBreaker DefaultCircuitBreakerConfig
         \<lparr>failureCount := 4\<rparr>))
 \<and> state (cb_step CallRecordSuccess
      (failures [10] (NewCircuitBreaker DefaultCircuitBreakerConfig
         \<lparr>failureCount := 4\<rparr>))) = CircuitHalfOpen"
proof -
  let ?O = "failures [10] (NewCircuitBreaker DefaultCircuitBreakerConfig
      \<lparr>failureCount := 4\<rparr>)"
  have v: "?O = \<lparr>cb_config = DefaultCircuitBreakerConfig, state = CircuitOpen,
      failureCount = 5, lastFailureTime = 10, successCount = 0\<rparr>"
    by (simp add: failures_def NewCircuitBreaker_def CircuitBreaker_RecordFailure_def
        DefaultCircuitBreakerConfig_def Let_def)
  have t: "RecoveryTimeout DefaultCircuitBreakerConfig \<le> time_Since (10 + 60 * Second) 10"
    by (simp add: DefaultCircuitBreakerConfig_def time_Since_def time_Sub_def Second_def
        maxDuration_def minDuration_def)
  have o: "state ?O = CircuitOpen"
    unfolding v by simp
  have t': "RecoveryTimeout (cb_config ?O) \<le> time_Since (10 + 60 * Second) (lastFailureTime ?O)"
    unfolding v using t by simp
  show ?thesis
    using allow_is_read_only [of "10 + 60 * Second" 0 ?O CallRecordSuccess] o t t'
    by (simp add: prod_eq_iff)
qed

section \<open>Rate limiter: properties\<close>



lemma Allow_answer: "fst (RateLimiter_Allow now rl) = (1 \<le> refilled now rl)"
  by (simp add: RateLimiter_Allow_def Let_def)












section \<open>Monitor: properties\<close>

subsection \<open>The sort of \<^verbatim>\<open>GetMetrics\<close> sorts\<close>

lemma bubble_inner_step:
  "j < bound \<Longrightarrow> bubble_inner j bound a =
     bubble_inner (j + 1) bound
       (if a ! j > a ! (j + 1) then a[j := a ! (j + 1), j + 1 := a ! j] else a)"
  by (subst bubble_inner.simps) simp

lemma bubble_inner_stop: "\<not> j < bound \<Longrightarrow> bubble_inner j bound a = a"
  by (subst bubble_inner.simps) simp

lemma bubble_inner_length: "length (bubble_inner j b a) = length a"
proof (induction j b a rule: bubble_inner.induct)
  case (1 j bound a)
  show ?case
  proof (cases "j < bound")
    case True
    have "length (bubble_inner j bound a) = length
        (if a ! j > a ! (j + 1) then a[j := a ! (j + 1), j + 1 := a ! j] else a)"
      unfolding bubble_inner_step [OF True] using "1.IH" [OF True] .
    then show ?thesis by simp
  next
    case False
    show ?thesis unfolding bubble_inner_stop [OF False] by (rule refl)
  qed
qed

lemma bubble_inner_mset:
  "b < length a \<Longrightarrow> mset (bubble_inner j b a) = mset a"
proof (induction j b a rule: bubble_inner.induct)
  case (1 j bound a)
  show ?case
  proof (cases "j < bound")
    case True
    let ?a' = "if a ! j > a ! (j + 1) then a[j := a ! (j + 1), j + 1 := a ! j] else a"
    have len: "bound < length ?a'"
      using "1.prems" by simp
    have swap: "mset ?a' = mset a"
      using True "1.prems" by (simp add: mset_swap)
    have "mset (bubble_inner j bound a) = mset ?a'"
      unfolding bubble_inner_step [OF True] using "1.IH" [OF True len] .
    then show ?thesis by (simp only: swap)
  next
    case False
    show ?thesis unfolding bubble_inner_stop [OF False] by (rule refl)
  qed
qed

lemma bubble_inner_drop:
  "b < length a \<Longrightarrow> drop (Suc b) (bubble_inner j b a) = drop (Suc b) a"
proof (induction j b a rule: bubble_inner.induct)
  case (1 j bound a)
  show ?case
  proof (cases "j < bound")
    case True
    let ?a' = "if a ! j > a ! (j + 1) then a[j := a ! (j + 1), j + 1 := a ! j] else a"
    have len: "bound < length ?a'"
      using "1.prems" by simp
    have tail: "drop (Suc bound) ?a' = drop (Suc bound) a"
      using True by simp
    have "drop (Suc bound) (bubble_inner j bound a) = drop (Suc bound) ?a'"
      unfolding bubble_inner_step [OF True] using "1.IH" [OF True len] .
    then show ?thesis by (simp only: tail)
  next
    case False
    show ?thesis unfolding bubble_inner_stop [OF False] by (rule refl)
  qed
qed

lemma bubble_inner_max:
  "b < length a \<Longrightarrow> j \<le> b \<Longrightarrow> \<forall>k<j. a ! k \<le> a ! j
    \<Longrightarrow> \<forall>k\<le>b. bubble_inner j b a ! k \<le> bubble_inner j b a ! b"
proof (induction j b a rule: bubble_inner.induct)
  case (1 j bound a)
  show ?case
  proof (cases "j < bound")
    case True
    let ?a' = "if a ! j > a ! (j + 1) then a[j := a ! (j + 1), j + 1 := a ! j] else a"
    have eq: "bubble_inner j bound a = bubble_inner (j + 1) bound ?a'"
      using True by (rule bubble_inner_step)
    have len: "bound < length ?a'"
      using "1.prems" by simp
    have jlen: "j + 1 < length a"
      using True "1.prems"(1) by simp
    have pre: "\<forall>k<j + 1. ?a' ! k \<le> ?a' ! (j + 1)"
    proof (intro allI impI)
      fix k assume k: "k < j + 1"
      show "?a' ! k \<le> ?a' ! (j + 1)"
      proof (cases "a ! j > a ! (j + 1)")
        case swap: True
        show ?thesis
        proof (cases "k = j")
          case True
          then show ?thesis using swap jlen by simp
        next
          case False
          then have "k < j" using k by simp
          then show ?thesis using swap jlen "1.prems"(3) by simp
        qed
      next
        case keep: False
        show ?thesis
        proof (cases "k = j")
          case True
          then show ?thesis using keep by simp
        next
          case False
          then have "k < j" using k by simp
          then have "a ! k \<le> a ! j" using "1.prems"(3) by simp
          then show ?thesis using keep by simp
        qed
      qed
    qed
    have le: "j + 1 \<le> bound"
      using True by simp
    show ?thesis
      unfolding eq using "1.IH" [OF True len le pre] .
  next
    case False
    then have "j = bound" using "1.prems"(2) by simp
    then have all: "\<forall>k\<le>bound. a ! k \<le> a ! bound"
      using "1.prems"(3) by (simp add: le_less)
    have eq: "bubble_inner j bound a = a"
      using False by (rule bubble_inner_stop)
    show ?thesis
      unfolding eq using all .
  qed
qed


lemma bubble_inner_take:
  assumes "b < length a"
  shows "mset (take (Suc b) (bubble_inner j b a)) = mset (take (Suc b) a)"
proof -
  let ?a' = "bubble_inner j b a"
  have "mset (take (Suc b) ?a') + mset (drop (Suc b) ?a') = mset ?a'"
    by (metis append_take_drop_id mset_append)
  then have new: "mset (take (Suc b) ?a') + mset (drop (Suc b) a) = mset a"
    using bubble_inner_mset [OF assms, of j] bubble_inner_drop [OF assms, of j] by simp
  have old: "mset (take (Suc b) a) + mset (drop (Suc b) a) = mset a"
    by (metis append_take_drop_id mset_append)
  show ?thesis
    using new old by (metis add_right_cancel)
qed

lemma bubble_outer_step:
  "i < n - 1 \<Longrightarrow> bubble_outer i n a = bubble_outer (i + 1) n (bubble_inner 0 (n - i - 1) a)"
  by (subst bubble_outer.simps) simp

lemma bubble_outer_stop: "\<not> i < n - 1 \<Longrightarrow> bubble_outer i n a = a"
  by (subst bubble_outer.simps) simp

lemma tail_sorted_round:
  assumes i: "i < length a - 1"
    and inv: "tail_sorted i a"
  shows "tail_sorted (i + 1) (bubble_inner 0 (length a - i - 1) a)"
proof -
  define b where "b = length a - i - 1"
  define a' where "a' = bubble_inner 0 b a"
  have b: "b < length a" and Sb: "Suc b = length a - i"
    using i by (simp_all add: b_def)
  have len: "length a' = length a"
    by (simp add: a'_def bubble_inner_length)
  have tail: "drop (Suc b) a' = drop (Suc b) a"
    unfolding a'_def by (rule bubble_inner_drop [OF b])
  have head: "set (take (Suc b) a') = set (take (Suc b) a)"
    unfolding a'_def using bubble_inner_take [OF b, of 0] by (rule mset_eq_setD)
  have top: "\<forall>k\<le>b. a' ! k \<le> a' ! b"
    unfolding a'_def by (rule bubble_inner_max [OF b]) simp_all
  have split: "drop b a' = a' ! b # drop (Suc b) a"
    using b len tail by (metis Cons_nth_drop_Suc)
  have old_sorted: "sorted (drop (Suc b) a)"
    and old_le: "\<forall>x \<in> set (take (Suc b) a). \<forall>y \<in> set (drop (Suc b) a). x \<le> y"
    using inv by (simp_all add: tail_sorted_def Sb)
  have b_in: "a' ! b \<in> set (take (Suc b) a')"
    using b len by (metis in_set_conv_nth length_take lessI min_less_iff_conj nth_take)
  have b_le: "\<forall>y \<in> set (drop (Suc b) a). a' ! b \<le> y"
    using b_in head old_le by blast
  have s: "sorted (drop b a')"
    using split old_sorted b_le by simp
  have "x \<le> y" if x: "x \<in> set (take b a')" and y: "y \<in> set (drop b a')" for x y
  proof -
    obtain k where k: "k < b" "x = a' ! k"
      using x b len by (auto simp: in_set_conv_nth)
    have xb: "x \<le> a' ! b"
      using top k by simp
    have "y = a' ! b \<or> y \<in> set (drop (Suc b) a)"
      using y split by simp
    then show ?thesis
      using xb b_le by auto
  qed
  then have "tail_sorted (i + 1) a'"
    using s i len by (simp add: tail_sorted_def b_def)
  then show ?thesis
    by (simp add: a'_def b_def)
qed

lemma bubble_outer_sorts:
  "n = length a \<Longrightarrow> i \<le> n - 1 \<Longrightarrow> tail_sorted i a
    \<Longrightarrow> sorted (bubble_outer i n a) \<and> mset (bubble_outer i n a) = mset a"
proof (induction i n a rule: bubble_outer.induct)
  case (1 i n a)
  show ?case
  proof (cases "i < n - 1")
    case True
    let ?a' = "bubble_inner 0 (n - i - 1) a"
    have n': "n = length ?a'"
      using "1.prems"(1) by (simp add: bubble_inner_length)
    have i': "i + 1 \<le> n - 1"
      using True by simp
    have inv': "tail_sorted (i + 1) ?a'"
      using tail_sorted_round [of i a] True "1.prems"(1,3) by simp
    have ms: "mset ?a' = mset a"
      using True "1.prems"(1) by (intro bubble_inner_mset) simp
    show ?thesis
      unfolding bubble_outer_step [OF True]
      using "1.IH" [OF True n' i' inv'] ms by simp
  next
    case False
    then have i: "i = n - 1"
      using "1.prems"(2) by simp
    have "sorted a"
    proof (cases a)
      case Nil
      then show ?thesis by simp
    next
      case (Cons x xs)
      then have "length a - i = 1"
        using i "1.prems"(1) by simp
      then show ?thesis
        using "1.prems"(3) Cons by (simp add: tail_sorted_def)
    qed
    then show ?thesis
      unfolding bubble_outer_stop [OF False] by simp
  qed
qed

lemma bubble_sort_sort: "bubble_sort a = sort a"
proof -
  have "tail_sorted 0 a"
    by (simp add: tail_sorted_def)
  then have "sorted (bubble_sort a) \<and> mset (bubble_sort a) = mset a"
    unfolding bubble_sort_def by (intro bubble_outer_sorts) simp_all
  then show ?thesis
    by (metis properties_for_sort)
qed


lemma p95Index_div: "p95Index n = (19 * n) div 20"
proof -
  have "real n * 0.95 = real (19 * n) / real 20"
    by simp
  then have "\<lfloor>real n * 0.95\<rfloor> = int ((19 * n) div 20)"
    by (simp only: floor_divide_of_nat_eq)
  then show ?thesis
    by (simp add: p95Index_def)
qed

lemma GetMetrics_P95:
  "P95ResponseTime (GetMetrics m cb rl)
     = (if 20 \<le> length (responseTimes m)
        then sort (responseTimes m) ! ((19 * length (responseTimes m)) div 20)
        else 0)"
  by (simp add: GetMetrics_def Let_def bubble_sort_sort p95Index_div split: prod.splits)

lemma not_dvd_19_times: "\<not> (20::int) dvd k \<Longrightarrow> \<not> 20 dvd 19 * k"
proof
  assume n: "\<not> (20::int) dvd k" and d: "20 dvd 19 * k"
  have "20 dvd 20 * k - 19 * k"
    using d by (intro dvd_diff) simp_all
  moreover have "20 * k - 19 * k = k"
    by simp
  ultimately show False
    using n by simp
qed

lemma ceiling_div_20: "\<not> (20::int) dvd a \<Longrightarrow> - ((- a) div 20) = a div 20 + 1"
  by (simp add: zdiv_zminus1_eq_if dvd_eq_mod_eq_0)

lemma nearest_rank_index:
  assumes "\<not> 20 dvd n"
  shows "nat \<lceil>real n * 0.95\<rceil> - 1 = (19 * n) div 20"
proof -
  have "\<not> int 20 dvd int n"
    using assms by (simp only: int_dvd_int_iff not_False_eq_True)
  then have "\<not> 20 dvd int n"
    by simp
  then have nd: "\<not> 20 dvd 19 * int n"
    by (rule not_dvd_19_times)
  have "real n * 0.95 = real_of_int (19 * int n) / real_of_int 20"
    by simp
  then have "\<lceil>real n * 0.95\<rceil> = - ((- (19 * int n)) div 20)"
    by (simp only: ceiling_divide_eq_div)
  also have "\<dots> = (19 * int n) div 20 + 1"
    using nd by (rule ceiling_div_20)
  also have "\<dots> = int ((19 * n) div 20) + 1"
    by (simp add: zdiv_int)
  finally show ?thesis by simp
qed

subsection \<open>Retained samples\<close>

lemma RecordSuccess_samples:
  "responseTimes (Monitor_RecordSuccess now d m)
     = drop (length (responseTimes m @ [d]) - 1000) (responseTimes m @ [d])"
  by (simp add: Monitor_RecordSuccess_def Let_def)

lemma RecordSuccess_bounded:
  "length (responseTimes (Monitor_RecordSuccess now d m)) \<le> 1000"
  by (simp add: RecordSuccess_samples)

lemma RecordFailure_samples:
  "responseTimes (Monitor_RecordFailure now d m) = responseTimes m @ [d]"
  by (simp add: Monitor_RecordFailure_def)

lemma records_failures_length:
  "length (responseTimes (records (replicate n (Failure now d)) m))
     = length (responseTimes m) + n"
  by (induction n arbitrary: m) (simp_all add: records_def RecordFailure_samples)

text \<open>
  C5.  The claim is not met by the code: \<^verbatim>\<open>RecordSuccess\<close> cuts the samples back to the
  newest 1000, \<^verbatim>\<open>RecordFailure\<close> appends and does not.  A new monitor that records
  1001 failures retains 1001 samples.
\<close>

theorem failures_exceed_sample_cap:
  "length (responseTimes
     (records (replicate 1001 (Failure 0 Millisecond)) (NewMonitor DefaultMonitoringConfig)))
   = 1001"
  by (simp add: records_failures_length NewMonitor_def)

text \<open>
  C9 as stated fails, in two ways.  With fewer than 20 samples \<^verbatim>\<open>GetMetrics\<close> leaves
  \<open>P95ResponseTime\<close> at zero: for the single sample 5 the nearest-rank percentile is 5.
  With 20 samples the index \<^verbatim>\<open>int(float64(20) * 0.95)\<close> is 19, the last place: for
  the samples 1 to 20 the result is 20, and the nearest-rank percentile (rank 19) is 19.
\<close>

theorem p95_counterexample:
  "P95ResponseTime (GetMetrics (NewMonitor DefaultMonitoringConfig \<lparr>responseTimes := [5]\<rparr>)
      (NewCircuitBreaker DefaultCircuitBreakerConfig) (NewRateLimiter DefaultRateLimitConfig 0))
     = 0
 \<and> nearest_rank_p95 [5] = 5
 \<and> P95ResponseTime (GetMetrics (NewMonitor DefaultMonitoringConfig
        \<lparr>responseTimes := [1, 2, 3, 4, 5, 6, 7, 8, 9, 10, 11, 12, 13, 14, 15, 16, 17, 18, 19, 20]\<rparr>)
      (NewCircuitBreaker DefaultCircuitBreakerConfig) (NewRateLimiter DefaultRateLimitConfig 0))
     = 20
 \<and> nearest_rank_p95 [1, 2, 3, 4, 5, 6, 7, 8, 9, 10, 11, 12, 13, 14, 15, 16, 17, 18, 19, 20]
     = 19"
proof -
  let ?xs = "[1, 2, 3, 4, 5, 6, 7, 8, 9, 10, 11, 12, 13, 14, 15, 16, 17, 18, 19, 20] :: int list"
  have srt: "sort ?xs = ?xs"
    by (rule sorted_sort_id) simp
  have one: "P95ResponseTime (GetMetrics (NewMonitor DefaultMonitoringConfig
        \<lparr>responseTimes := [5]\<rparr>)
      (NewCircuitBreaker DefaultCircuitBreakerConfig) (NewRateLimiter DefaultRateLimitConfig 0))
     = 0"
    by (simp add: GetMetrics_P95)
  have one_rank: "nearest_rank_p95 [5] = 5"
    by (simp add: nearest_rank_p95_def)
  have twenty: "P95ResponseTime (GetMetrics (NewMonitor DefaultMonitoringConfig
        \<lparr>responseTimes := ?xs\<rparr>)
      (NewCircuitBreaker DefaultCircuitBreakerConfig) (NewRateLimiter DefaultRateLimitConfig 0))
     = 20"
    unfolding GetMetrics_P95 by (simp del: sort_key_simps add: srt)
  have "nat \<lceil>real (length ?xs) * 0.95\<rceil> - 1 = 18"
    by simp
  then have twenty_rank: "nearest_rank_p95 ?xs = 19"
    unfolding nearest_rank_p95_def srt by simp
  show ?thesis
    using one one_rank twenty twenty_rank by blast
qed

text \<open>
  C9 amended.  With at least 20 retained samples, \<open>P95ResponseTime\<close> is the sample at
  place \<open>\<lfloor>0.95 * n\<rfloor>\<close> (places counted from 0) of the samples in ascending order, where
  \<open>n\<close> is their number; this is the nearest-rank 95th percentile whenever \<open>n\<close> is not a
  multiple of 20.  With fewer than 20 samples \<open>P95ResponseTime\<close> is zero.
\<close>

theorem p95_of_samples:
  "P95ResponseTime (GetMetrics m cb rl)
     = (if 20 \<le> length (responseTimes m)
        then sort (responseTimes m) ! ((19 * length (responseTimes m)) div 20)
        else 0)
 \<and> (20 \<le> length (responseTimes m) \<and> \<not> 20 dvd length (responseTimes m)
      \<longrightarrow> P95ResponseTime (GetMetrics m cb rl) = nearest_rank_p95 (responseTimes m))"
proof -
  have idx: "P95ResponseTime (GetMetrics m cb rl)
     = (if 20 \<le> length (responseTimes m)
        then sort (responseTimes m) ! ((19 * length (responseTimes m)) div 20)
        else 0)"
    by (rule GetMetrics_P95)
  have "P95ResponseTime (GetMetrics m cb rl) = nearest_rank_p95 (responseTimes m)"
    if "20 \<le> length (responseTimes m)" and "\<not> 20 dvd length (responseTimes m)"
    unfolding nearest_rank_p95_def nearest_rank_index [OF that(2)] idx
    using that(1) by simp
  then show ?thesis
    using idx by blast
qed

theorem p95_of_samples_witness:
  "20 \<le> length [21, 20, 19, 18, 17, 16, 15, 14, 13, 12, 11, 10, 9, 8, 7, 6, 5, 4, 3, 2, 1 :: int]
 \<and> \<not> 20 dvd length [21, 20, 19, 18, 17, 16, 15, 14, 13, 12, 11, 10, 9, 8, 7, 6, 5, 4, 3, 2, 1 :: int]
 \<and> P95ResponseTime (GetMetrics (NewMonitor DefaultMonitoringConfig
        \<lparr>responseTimes := [21, 20, 19, 18, 17, 16, 15, 14, 13, 12, 11, 10, 9, 8, 7, 6, 5, 4, 3, 2, 1]\<rparr>)
      (NewCircuitBreaker DefaultCircuitBreakerConfig) (NewRateLimiter DefaultRateLimitConfig 0))
     = 20
 \<and> nearest_rank_p95 [21, 20, 19, 18, 17, 16, 15, 14, 13, 12, 11, 10, 9, 8, 7, 6, 5, 4, 3, 2, 1]
     = 20"
proof -
  let ?xs = "[21, 20, 19, 18, 17, 16, 15, 14, 13, 12, 11, 10, 9, 8, 7, 6, 5, 4, 3, 2, 1] :: int list"
  let ?m = "NewMonitor DefaultMonitoringConfig \<lparr>responseTimes := ?xs\<rparr>"
  let ?cb = "NewCircuitBreaker DefaultCircuitBreakerConfig"
  let ?rl = "NewRateLimiter DefaultRateLimitConfig 0"
  have n: "length ?xs = 21"
    by simp
  have len: "20 \<le> length ?xs" and ndvd: "\<not> 20 dvd length ?xs"
    unfolding n by simp_all
  have srt: "sort ?xs = [1, 2, 3, 4, 5, 6, 7, 8, 9, 10, 11, 12, 13, 14, 15, 16, 17, 18, 19, 20, 21]"
    by simp
  have rts: "responseTimes ?m = ?xs"
    by simp
  have p: "P95ResponseTime (GetMetrics ?m ?cb ?rl) = sort ?xs ! ((19 * length ?xs) div 20)"
    and q: "P95ResponseTime (GetMetrics ?m ?cb ?rl) = nearest_rank_p95 ?xs"
    using p95_of_samples [of ?m ?cb ?rl] len ndvd unfolding rts by simp_all
  have "sort ?xs ! ((19 * length ?xs) div 20) = 20"
    unfolding srt by simp
  then show ?thesis
    using p q len ndvd by simp
qed

section \<open>Retry manager: properties\<close>

lemma counted_apply:
  "counted operation (n, s) = (fst (operation s), (n + 1, snd (operation s)))"
  by (simp add: counted_def split: prod.splits)

lemma invoked_Suc:
  "invoked (Suc n) operation s = invoked n operation (snd (operation s))"
  by (simp only: invoked_def funpow_Suc_right o_apply)

lemma invoked_Suc_outer:
  "invoked (Suc n) operation s = snd (operation (invoked n operation s))"
  by (simp add: invoked_def)

lemma invoked_counted:
  "invoked n (counted operation) (c, s) = (c + n, invoked n operation s)"
  by (induction n) (simp_all add: invoked_Suc_outer counted_apply, simp add: invoked_def)

lemma error_of_counted: "error_of (counted operation) (c, s) = error_of operation s"
  by (simp add: error_of_def counted_apply)

lemma Execute_from_retry:
  assumes "attempt < MaxAttempts (rm_config rm)"
    and "error_of operation s = Some e"
    and "isRetriable rm e"
    and "ctx attempt (calculateDelay fp rm attempt (rnd attempt)) = None"
  shows "Execute_from fp rm ctx rnd operation attempt lastErr s
       = Execute_from fp rm ctx rnd operation (attempt + 1) (Some e) (snd (operation s))"
  using assms
  by (subst Execute_from.simps) (auto simp: error_of_def split: prod.splits option.splits)

lemma Execute_from_last:
  assumes "attempt = MaxAttempts (rm_config rm)"
    and "error_of operation s = Some e"
  shows "Execute_from fp rm ctx rnd operation attempt lastErr s
       = (('''', Some e), snd (operation s))"
  using assms
  by (subst Execute_from.simps) (auto simp: error_of_def split: prod.splits option.splits)

lemma Execute_from_cancel:
  assumes "attempt < MaxAttempts (rm_config rm)"
    and "error_of operation s = Some e"
    and "isRetriable rm e"
    and "ctx attempt (calculateDelay fp rm attempt (rnd attempt)) = Some cancelled"
  shows "Execute_from fp rm ctx rnd operation attempt lastErr s
       = (('''', Some cancelled), snd (operation s))"
  using assms
  by (subst Execute_from.simps) (auto simp: error_of_def split: prod.splits option.splits)

text \<open>\<open>n\<close> attempts in a row that fail with a retriable error and whose waits run out.\<close>

lemma Execute_from_failed_attempts:
  assumes "\<forall>i<n. \<exists>e. error_of operation (invoked i operation s) = Some e \<and> isRetriable rm e"
    and "\<forall>i<n. ctx (attempt + int i)
            (calculateDelay fp rm (attempt + int i) (rnd (attempt + int i))) = None"
    and "attempt + int n \<le> MaxAttempts (rm_config rm)"
  shows "\<exists>le. Execute_from fp rm ctx rnd operation attempt lastErr s
       = Execute_from fp rm ctx rnd operation (attempt + int n) le (invoked n operation s)"
  using assms
proof (induction n arbitrary: attempt lastErr s)
  case 0
  then show ?case by (auto simp: invoked_def)
next
  case (Suc n)
  obtain e where e: "error_of operation s = Some e" "isRetriable rm e"
    using Suc.prems(1) [rule_format, of 0] by (auto simp: invoked_def)
  have wait: "ctx attempt (calculateDelay fp rm attempt (rnd attempt)) = None"
    using Suc.prems(2) [rule_format, of 0] by simp
  have lt: "attempt < MaxAttempts (rm_config rm)"
    using Suc.prems(3) by simp
  have step: "Execute_from fp rm ctx rnd operation attempt lastErr s
       = Execute_from fp rm ctx rnd operation (attempt + 1) (Some e) (snd (operation s))"
    using lt e wait
    by (intro Execute_from_retry [where fp = fp and ctx = ctx and rnd = rnd]) simp_all
  have fails: "\<forall>i<n. \<exists>e. error_of operation (invoked i operation (snd (operation s))) = Some e
      \<and> isRetriable rm e"
    using Suc.prems(1) by (metis invoked_Suc Suc_less_eq)
  have waits: "\<forall>i<n. ctx (attempt + 1 + int i)
            (calculateDelay fp rm (attempt + 1 + int i) (rnd (attempt + 1 + int i))) = None"
  proof (intro allI impI)
    fix i assume "i < n"
    then have "ctx (attempt + int (Suc i))
            (calculateDelay fp rm (attempt + int (Suc i)) (rnd (attempt + int (Suc i)))) = None"
      using Suc.prems(2) by (metis Suc_less_eq)
    moreover have "attempt + int (Suc i) = attempt + 1 + int i"
      by simp
    ultimately show "ctx (attempt + 1 + int i)
            (calculateDelay fp rm (attempt + 1 + int i) (rnd (attempt + 1 + int i))) = None"
      by (simp only:)
  qed
  have le: "attempt + 1 + int n \<le> MaxAttempts (rm_config rm)"
    using Suc.prems(3) by simp
  obtain le' where "Execute_from fp rm ctx rnd operation (attempt + 1) (Some e) (snd (operation s))
       = Execute_from fp rm ctx rnd operation (attempt + 1 + int n) le'
           (invoked n operation (snd (operation s)))"
    using Suc.IH [where attempt = "attempt + 1" and lastErr = "Some e"
        and s = "snd (operation s)"] fails waits le
    by blast
  moreover have "attempt + 1 + int n = attempt + int (Suc n)"
    by simp
  ultimately show ?case
    using step by (metis invoked_Suc)
qed

lemma counted_fails:
  assumes "\<forall>i<n. \<exists>e. error_of operation (invoked i operation s) = Some e \<and> isRetriable rm e"
  shows "\<forall>i<n. \<exists>e. error_of (counted operation) (invoked i (counted operation) (c, s)) = Some e
            \<and> isRetriable rm e"
  using assms by (simp add: invoked_counted error_of_counted)

text \<open>
  C2.  With \<open>MaxAttempts \<ge> 1\<close>, an operation whose every invocation fails with an error
  that \<^verbatim>\<open>isRetriable\<close> accepts, and a context whose \<^verbatim>\<open>Done\<close> channel is never taken:
  \<^verbatim>\<open>Execute\<close> invokes the operation exactly \<open>MaxAttempts\<close> times (the counter goes from
  0 to \<open>MaxAttempts\<close>) and returns the empty string with the error of the last invocation.
\<close>

theorem retry_exhaustion:
  assumes "1 \<le> MaxAttempts (rm_config rm)"
    and "\<forall>s. \<exists>e. error_of operation s = Some e \<and> isRetriable rm e"
    and "\<forall>k d. ctx k d = None"
  shows "Execute fp rm ctx rnd (counted operation) (0, s)
       = (('''', error_of operation
                   (invoked (nat (MaxAttempts (rm_config rm)) - 1) operation s)),
          (nat (MaxAttempts (rm_config rm)),
           invoked (nat (MaxAttempts (rm_config rm))) operation s))
     \<and> error_of operation (invoked (nat (MaxAttempts (rm_config rm)) - 1) operation s) \<noteq> None"
proof -
  define N where "N = nat (MaxAttempts (rm_config rm))"
  define n where "n = N - 1"
  have N: "MaxAttempts (rm_config rm) = int N" and Nn: "N = Suc n"
    using assms(1) by (simp_all add: N_def n_def)
  have fails: "\<forall>i<n. \<exists>e. error_of (counted operation) (invoked i (counted operation) (0, s)) = Some e
            \<and> isRetriable rm e"
    using assms(2) by (intro counted_fails) simp
  have waits: "\<forall>i<n. ctx (1 + int i) (calculateDelay fp rm (1 + int i) (rnd (1 + int i))) = None"
    using assms(3) by simp
  have le: "1 + int n \<le> MaxAttempts (rm_config rm)"
    by (simp add: N Nn)
  obtain le' where run: "Execute_from fp rm ctx rnd (counted operation) 1 None (0, s)
       = Execute_from fp rm ctx rnd (counted operation) (1 + int n) le'
           (invoked n (counted operation) (0, s))"
    using Execute_from_failed_attempts [where attempt = 1 and lastErr = None
        and fp = fp and ctx = ctx and rnd = rnd and rm = rm and operation = "counted operation"
        and s = "(0, s)" and n = n] fails waits le
    by blast
  obtain e where e: "error_of operation (invoked n operation s) = Some e"
    using assms(2) by blast
  have last: "1 + int n = MaxAttempts (rm_config rm)"
    by (simp add: N Nn)
  have e': "error_of (counted operation) (n, invoked n operation s) = Some e"
    using e by (simp add: error_of_counted)
  have "Execute_from fp rm ctx rnd (counted operation) (1 + int n) le' (n, invoked n operation s)
       = (('''', Some e), snd (counted operation (n, invoked n operation s)))"
    using last e'
    by (intro Execute_from_last [where fp = fp and ctx = ctx and rnd = rnd]) simp_all
  then have "Execute fp rm ctx rnd (counted operation) (0, s)
       = (('''', Some e), (Suc n, invoked (Suc n) operation s))"
    using run by (simp add: Execute_def invoked_counted counted_apply invoked_Suc_outer)
  then show ?thesis
    using e unfolding N_def [symmetric] Nn by (simp add: n_def N_def)
qed

text \<open>
  An example.  The \<^verbatim>\<open>float64\<close> arithmetic is instantiated with arithmetic on the real
  numbers; the theorem holds for every instance, and here the context does not look at
  the delays.
\<close>

theorem retry_exhaustion_witness:
  "1 \<le> MaxAttempts (rm_config (NewRetryManager DefaultRetryConfig))
 \<and> isRetriable (NewRetryManager DefaultRetryConfig)
       (Errorf ''rate_limit: simulated rate limit error'')
 \<and> Execute
       \<lparr>float64_of = real_of_int, float64_val = \<lambda>x. x, fadd = (+), fsub = (-), fmul = (*),
          fdiv = (/), fpow = (powr), fgt = \<lambda>x y. x > y, to_Duration = floor\<rparr>
       (NewRetryManager DefaultRetryConfig) (\<lambda>k d. None) (\<lambda>k. 0)
       (counted (\<lambda>s::nat. (('''', Some (Errorf ''rate_limit: simulated rate limit error'')),
                            s + 10)))
       (0, 0)
     = (('''', Some (Errorf ''rate_limit: simulated rate limit error'')), (3, 30))"
proof -
  let ?fp = "\<lparr>float64_of = real_of_int, float64_val = \<lambda>x. x, fadd = (+), fsub = (-), fmul = (*),
          fdiv = (/), fpow = (powr), fgt = \<lambda>x y. x > y, to_Duration = floor\<rparr>"
  let ?rm = "NewRetryManager DefaultRetryConfig"
  let ?e = "Errorf ''rate_limit: simulated rate limit error''"
  let ?op = "\<lambda>s::nat. (('''', Some ?e), s + 10)"
  have m: "1 \<le> MaxAttempts (rm_config ?rm)"
    by (simp add: NewRetryManager_def DefaultRetryConfig_def)
  have r: "isRetriable ?rm ?e"
    by (simp add: isRetriable_def NewRetryManager_def DefaultRetryConfig_def contains_def)
  have f: "\<forall>s. \<exists>e. error_of ?op s = Some e \<and> isRetriable ?rm e"
    using r by (simp add: error_of_def)
  have c: "\<forall>k d. (\<lambda>k d. None :: error option) k d = None"
    by simp
  have n: "nat (MaxAttempts (rm_config ?rm)) = 3"
    by (simp add: NewRetryManager_def DefaultRetryConfig_def)
  have i2: "invoked 2 ?op 0 = 20" and i3: "invoked 3 ?op 0 = 30"
    by (simp_all add: invoked_def numeral_2_eq_2 numeral_3_eq_3)
  have "Execute ?fp ?rm (\<lambda>k d. None) (\<lambda>k. 0) (counted ?op) (0, 0)
       = (('''', error_of ?op (invoked (3 - 1) ?op 0)), (3, invoked 3 ?op 0))"
    using retry_exhaustion [where fp = ?fp and rm = ?rm and operation = ?op and ctx = "\<lambda>k d. None"
        and rnd = "\<lambda>k. 0" and s = 0] m f c
    unfolding n by blast
  then show ?thesis
    using m r by (simp add: i2 i3 error_of_def)
qed

text \<open>
  C7.  Let the first \<open>k\<close> invocations fail with retriable errors, \<open>k\<close> below
  \<open>MaxAttempts\<close>, let the waits after the attempts before the \<open>k\<close>-th run out, and let
  the context be cancelled during the wait after attempt \<open>k\<close>.  Then \<^verbatim>\<open>Execute\<close> returns
  the empty string with the context's error, whatever the operation's last error was,
  and the operation has been invoked exactly \<open>k\<close> times.
\<close>

theorem cancellation_precedence:
  assumes "1 \<le> k"
    and "int k < MaxAttempts (rm_config rm)"
    and "\<forall>i<k. \<exists>e. error_of operation (invoked i operation s) = Some e \<and> isRetriable rm e"
    and "\<forall>i<k - 1. ctx (1 + int i) (calculateDelay fp rm (1 + int i) (rnd (1 + int i))) = None"
    and "ctx (int k) (calculateDelay fp rm (int k) (rnd (int k))) = Some cancelled"
  shows "Execute fp rm ctx rnd (counted operation) (0, s)
       = (('''', Some cancelled), (k, invoked k operation s))"
proof -
  define n where "n = k - 1"
  have k: "k = Suc n"
    using assms(1) by (simp add: n_def)
  have fails: "\<forall>i<n. \<exists>e. error_of (counted operation) (invoked i (counted operation) (0, s)) = Some e
            \<and> isRetriable rm e"
    using assms(3) by (intro counted_fails) (simp add: k)
  have waits: "\<forall>i<n. ctx (1 + int i) (calculateDelay fp rm (1 + int i) (rnd (1 + int i))) = None"
    using assms(4) by (simp add: n_def)
  have le: "1 + int n \<le> MaxAttempts (rm_config rm)"
    using assms(2) by (simp add: k)
  obtain le' where run: "Execute_from fp rm ctx rnd (counted operation) 1 None (0, s)
       = Execute_from fp rm ctx rnd (counted operation) (1 + int n) le'
           (invoked n (counted operation) (0, s))"
    using Execute_from_failed_attempts [where attempt = 1 and lastErr = None
        and fp = fp and ctx = ctx and rnd = rnd and rm = rm and operation = "counted operation"
        and s = "(0, s)" and n = n] fails waits le
    by blast
  obtain e where e: "error_of operation (invoked n operation s) = Some e" "isRetriable rm e"
    using assms(3) k by blast
  have e': "error_of (counted operation) (n, invoked n operation s) = Some e"
    using e(1) by (simp add: error_of_counted)
  have lt: "1 + int n < MaxAttempts (rm_config rm)"
    using assms(2) by (simp add: k)
  have cancel: "ctx (1 + int n) (calculateDelay fp rm (1 + int n) (rnd (1 + int n))) = Some cancelled"
    using assms(5) by (simp add: k add.commute)
  have "Execute_from fp rm ctx rnd (counted operation) (1 + int n) le' (n, invoked n operation s)
       = (('''', Some cancelled), snd (counted operation (n, invoked n operation s)))"
    using lt e' e(2) cancel
    by (intro Execute_from_cancel [where fp = fp and ctx = ctx and rnd = rnd]) simp_all
  then show ?thesis
    using run by (simp add: Execute_def invoked_counted counted_apply invoked_Suc_outer k)
qed

text \<open>
  An example, with the same instance of the arithmetic; the context is cancelled in the
  wait after the second attempt, whatever its length.
\<close>

theorem cancellation_precedence_witness:
  "int 2 < MaxAttempts (rm_config (NewRetryManager DefaultRetryConfig))
 \<and> isRetriable (NewRetryManager DefaultRetryConfig)
       (Errorf ''rate_limit: simulated rate limit error'')
 \<and> Execute
       \<lparr>float64_of = real_of_int, float64_val = \<lambda>x. x, fadd = (+), fsub = (-), fmul = (*),
          fdiv = (/), fpow = (powr), fgt = \<lambda>x y. x > y, to_Duration = floor\<rparr>
       (NewRetryManager DefaultRetryConfig)
       (\<lambda>k d. if k = 2 then Some Canceled else None) (\<lambda>k. 0)
       (counted (\<lambda>s::nat. (('''', Some (Errorf ''rate_limit: simulated rate limit error'')),
                            s + 10)))
       (0, 0)
     = (('''', Some Canceled), (2, 20))"
proof -
  let ?fp = "\<lparr>float64_of = real_of_int, float64_val = \<lambda>x. x, fadd = (+), fsub = (-), fmul = (*),
          fdiv = (/), fpow = (powr), fgt = \<lambda>x y. x > y, to_Duration = floor\<rparr>"
  let ?rm = "NewRetryManager DefaultRetryConfig"
  let ?e = "Errorf ''rate_limit: simulated rate limit error''"
  let ?op = "\<lambda>s::nat. (('''', Some ?e), s + 10)"
  let ?ctx = "\<lambda>(k::int) (d::Duration). if k = 2 then Some Canceled else None"
  have k1: "1 \<le> (2::nat)"
    by simp
  have m: "int 2 < MaxAttempts (rm_config ?rm)"
    by (simp add: NewRetryManager_def DefaultRetryConfig_def)
  have r: "isRetriable ?rm ?e"
    by (simp add: isRetriable_def NewRetryManager_def DefaultRetryConfig_def contains_def)
  have f: "\<forall>i<2. \<exists>e. error_of ?op (invoked i ?op 0) = Some e \<and> isRetriable ?rm e"
    using r by (simp add: error_of_def)
  have w: "\<forall>i<2 - 1. ?ctx (1 + int i)
      (calculateDelay ?fp ?rm (1 + int i) ((\<lambda>k. 0) (1 + int i))) = None"
    by simp
  have c: "?ctx (int 2) (calculateDelay ?fp ?rm (int 2) ((\<lambda>k. 0) (int 2))) = Some Canceled"
    by simp
  have i2: "invoked 2 ?op 0 = 20"
    by (simp add: invoked_def numeral_2_eq_2)
  have "Execute ?fp ?rm ?ctx (\<lambda>k. 0) (counted ?op) (0, 0)
       = (('''', Some Canceled), (2, invoked 2 ?op 0))"
    using cancellation_precedence [where fp = ?fp and rm = ?rm and operation = ?op and ctx = ?ctx
        and rnd = "\<lambda>k. 0" and s = 0 and k = 2 and cancelled = Canceled] k1 m f w c
    by blast
  then show ?thesis
    using m r by (simp add: i2)
qed

section \<open>Resilient agent: properties\<close>

lemma Chat_rate_limited:
  assumes "\<not> fst (RateLimiter_Allow (clock ra (ticks ra + 1)) (rateLimiter ra))"
  shows "Chat fp api ctx rnd message ra
       = (('''', Some (Errorf ''rate limit exceeded'')),
          ra\<lparr>ticks := ticks ra + 2,
             rateLimiter := snd (RateLimiter_Allow (clock ra (ticks ra + 1)) (rateLimiter ra)),
             monitor := RecordRateLimited (monitor ra)\<rparr>)"
  using assms
  by (simp add: Chat_def Now_def Let_def case_prod_beta)

text \<open>
  C8.  In a state where the rate limiter, asked at the time \<^verbatim>\<open>Chat\<close> reads for it,
  denies the request: \<^verbatim>\<open>Chat\<close> returns the empty string with the error "rate limit
  exceeded"; the monitor is changed by one \<^verbatim>\<open>RecordRateLimited\<close> and nothing else (one
  more rate-limited request, one more request in total, no latency sample, no success or
  failure counted); the circuit breaker, the fault injector and the remote client are as
  before; and the outcome is the same for every remote call, context, random source and
  \<^verbatim>\<open>float64\<close> arithmetic, none of which is consulted.
\<close>

theorem rate_limited_chat:
  assumes "\<not> fst (RateLimiter_Allow (clock ra (ticks ra + 1)) (rateLimiter ra))"
  shows "fst (Chat fp api ctx rnd message ra) = ('''', Some (Errorf ''rate limit exceeded''))
       \<and> monitor (snd (Chat fp api ctx rnd message ra)) = RecordRateLimited (monitor ra)
       \<and> rateLimitedRequests (monitor (snd (Chat fp api ctx rnd message ra)))
           = rateLimitedRequests (monitor ra) + 1
       \<and> totalRequests (monitor (snd (Chat fp api ctx rnd message ra)))
           = totalRequests (monitor ra) + 1
       \<and> successfulRequests (monitor (snd (Chat fp api ctx rnd message ra)))
           = successfulRequests (monitor ra)
       \<and> failedRequests (monitor (snd (Chat fp api ctx rnd message ra)))
           = failedRequests (monitor ra)
       \<and> responseTimes (monitor (snd (Chat fp api ctx rnd message ra)))
           = responseTimes (monitor ra)
       \<and> circuitBreaker (snd (Chat fp api ctx rnd message ra)) = circuitBreaker ra
       \<and> faultInjector (snd (Chat fp api ctx rnd message ra)) = faultInjector ra
       \<and> client (snd (Chat fp api ctx rnd message ra)) = client ra
       \<and> Chat fp' api' ctx' rnd' message ra = Chat fp api ctx rnd message ra"
  unfolding Chat_rate_limited [OF assms]
  by (simp add: RecordRateLimited_def)

text \<open>
  An example.  The \<^verbatim>\<open>float64\<close> arithmetic is instantiated with arithmetic on the real
  numbers; the theorem holds for every instance and the denied call computes no delay.
\<close>

theorem rate_limited_chat_witness:
  "\<not> fst (RateLimiter_Allow (3 * Millisecond)
        ((NewRateLimiter DefaultRateLimitConfig Millisecond) \<lparr>tokens := 0\<rparr>))
 \<and> fst (Chat \<lparr>float64_of = real_of_int, float64_val = \<lambda>x. x, fadd = (+), fsub = (-), fmul = (*),
          fdiv = (/), fpow = (powr), fgt = \<lambda>x y. x > y, to_Duration = floor\<rparr>
      (\<lambda>c m. (([''hello''], None), Suc c)) (\<lambda>k d. None) (\<lambda>k. 0) ''hi''
      \<lparr>client = 0::nat, ra_config = DefaultReliabilityConfig,
       retryManager = NewRetryManager DefaultRetryConfig,
       circuitBreaker = NewCircuitBreaker DefaultCircuitBreakerConfig,
       rateLimiter = (NewRateLimiter DefaultRateLimitConfig Millisecond) \<lparr>tokens := 0\<rparr>,
       monitor = NewMonitor DefaultMonitoringConfig, faultInjector = NewFaultInjector,
       clock = \<lambda>n. int n * Millisecond, ticks = 2, floats = \<lambda>n. 0, draws = 0\<rparr>)
     = ('''', Some (Errorf ''rate limit exceeded''))
 \<and> client (snd (Chat \<lparr>float64_of = real_of_int, float64_val = \<lambda>x. x, fadd = (+), fsub = (-), fmul = (*),
          fdiv = (/), fpow = (powr), fgt = \<lambda>x y. x > y, to_Duration = floor\<rparr>
      (\<lambda>c m. (([''hello''], None), Suc c)) (\<lambda>k d. None) (\<lambda>k. 0) ''hi''
      \<lparr>client = 0::nat, ra_config = DefaultReliabilityConfig,
       retryManager = NewRetryManager DefaultRetryConfig,
       circuitBreaker = NewCircuitBreaker DefaultCircuitBreakerConfig,
       rateLimiter = (NewRateLimiter DefaultRateLimitConfig Millisecond) \<lparr>tokens := 0\<rparr>,
       monitor = NewMonitor DefaultMonitoringConfig, faultInjector = NewFaultInjector,
       clock = \<lambda>n. int n * Millisecond, ticks = 2, floats = \<lambda>n. 0, draws = 0\<rparr>))
     = 0
 \<and> rateLimitedRequests (monitor (snd (Chat \<lparr>float64_of = real_of_int, float64_val = \<lambda>x. x, fadd = (+), fsub = (-), fmul = (*),
          fdiv = (/), fpow = (powr), fgt = \<lambda>x y. x > y, to_Duration = floor\<rparr>
      (\<lambda>c m. (([''hello''], None), Suc c))
      (\<lambda>k d. None) (\<lambda>k. 0) ''hi''
      \<lparr>client = 0::nat, ra_config = DefaultReliabilityConfig,
       retryManager = NewRetryManager DefaultRetryConfig,
       circuitBreaker = NewCircuitBreaker DefaultCircuitBreakerConfig,
       rateLimiter = (NewRateLimiter DefaultRateLimitConfig Millisecond) \<lparr>tokens := 0\<rparr>,
       monitor = NewMonitor DefaultMonitoringConfig, faultInjector = NewFaultInjector,
       clock = \<lambda>n. int n * Millisecond, ticks = 2, floats = \<lambda>n. 0, draws = 0\<rparr>)))
     = 1"
proof -
  let ?rl = "(NewRateLimiter DefaultRateLimitConfig Millisecond) \<lparr>tokens := 0\<rparr>"
  let ?ra = "\<lparr>client = 0::nat, ra_config = DefaultReliabilityConfig,
       retryManager = NewRetryManager DefaultRetryConfig,
       circuitBreaker = NewCircuitBreaker DefaultCircuitBreakerConfig,
       rateLimiter = ?rl,
       monitor = NewMonitor DefaultMonitoringConfig, faultInjector = NewFaultInjector,
       clock = \<lambda>n. int n * Millisecond, ticks = 2, floats = \<lambda>n. 0, draws = 0\<rparr>"
  have deny: "\<not> fst (RateLimiter_Allow (3 * Millisecond) ?rl)"
    by (simp add: Allow_answer refilled_def NewRateLimiter_def DefaultRateLimitConfig_def
        time_Sub_def Seconds_def Millisecond_def maxDuration_def minDuration_def Let_def)
  have at: "clock ?ra (ticks ?ra + 1) = 3 * Millisecond"
    by simp
  have rl: "rateLimiter ?ra = ?rl"
    by simp
  have pre: "\<not> fst (RateLimiter_Allow (clock ?ra (ticks ?ra + 1)) (rateLimiter ?ra))"
    unfolding at rl using deny .
  have before: "client ?ra = 0" "rateLimitedRequests (monitor ?ra) = 0"
    by (simp_all add: NewMonitor_def)
  let ?fp = "\<lparr>float64_of = real_of_int, float64_val = \<lambda>x. x, fadd = (+), fsub = (-), fmul = (*),
          fdiv = (/), fpow = (powr), fgt = \<lambda>x y. x > y, to_Duration = floor\<rparr>"
  let ?api = "\<lambda>(c::nat) (m::string). (([''hello''], None :: error option), Suc c)"
  let ?ctx = "\<lambda>(k::int) (d::Duration). None :: error option"
  let ?rnd = "\<lambda>k::int. 0 :: real"
  note all = rate_limited_chat [OF pre, where fp = ?fp and api = ?api and ctx = ?ctx
      and rnd = ?rnd and message = "''hi''" and fp' = ?fp and api' = ?api and ctx' = ?ctx
      and rnd' = ?rnd]
  have r: "fst (Chat ?fp ?api ?ctx ?rnd ''hi'' ?ra) = ('''', Some (Errorf ''rate limit exceeded''))"
    using all by blast
  have "client (snd (Chat ?fp ?api ?ctx ?rnd ''hi'' ?ra)) = client ?ra"
    using all by blast
  then have c: "client (snd (Chat ?fp ?api ?ctx ?rnd ''hi'' ?ra)) = 0"
    by (simp only: before)
  have "rateLimitedRequests (monitor (snd (Chat ?fp ?api ?ctx ?rnd ''hi'' ?ra)))
      = rateLimitedRequests (monitor ?ra) + 1"
    using all by blast
  then have n: "rateLimitedRequests (monitor (snd (Chat ?fp ?api ?ctx ?rnd ''hi'' ?ra))) = 1"
    by (simp only: before)
  show ?thesis
    using deny r c n by blast
qed

end
